theory Spec2Isabelle
  imports Complex_Main "HOL-Library.Word"
begin

section \<open>Python values\<close>

text \<open>
  Flag values, YAML data and run attributes are dynamically typed Python objects.
  A finite float is modelled by the rational number it denotes (so that the comparison
  of an int with a float is by value, as in Python); the two infinities and NaN are
  kept apart.
\<close>

datatype pyfloat = Fin rat | Inf bool | NaN

datatype pyval =
    PNone
  | PBool bool
  | PInt int
  | PFloat pyfloat
  | PStr string
  | PList "pyval list"

text \<open>Truthiness of a value (\<^verbatim>\<open>bool(val)\<close>, \<^verbatim>\<open>not val\<close>, \<^verbatim>\<open>if val:\<close>).\<close>

fun py_truthy :: "pyval \<Rightarrow> bool" where
  "py_truthy PNone = False"
| "py_truthy (PBool b) = b"
| "py_truthy (PInt i) = (i \<noteq> 0)"
| "py_truthy (PFloat (Fin r)) = (r \<noteq> 0)"
| "py_truthy (PFloat (Inf s)) = True"
| "py_truthy (PFloat NaN) = True"
| "py_truthy (PStr s) = (s \<noteq> [])"
| "py_truthy (PList xs) = (xs \<noteq> [])"

text \<open>A string between single quotes, as the messages have it.\<close>

definition quoted :: "string \<Rightarrow> string" where
  "quoted s = [CHR 0x27] @ s @ [CHR 0x27]"

text \<open>Truthiness of an optional string attribute (\<^verbatim>\<open>None\<close> or a \<^verbatim>\<open>str\<close>).\<close>

fun str_truthy :: "string option \<Rightarrow> bool" where
  "str_truthy None = False"
| "str_truthy (Some s) = (s \<noteq> [])"

section \<open>Op command support\<close>

subsection \<open>Execution template selection\<close>

definition MAIN_EXEC :: string where
  "MAIN_EXEC = ''${python_exe} -um guild.op_main ${main_args} -- ${flag_args}''"

definition STEPS_EXEC :: string where
  "STEPS_EXEC = ''${guild_python_exe} -um guild.steps_main''"

text \<open>
  The attributes of an operation definition that command building reads:
  \<^verbatim>\<open>exec_\<close> and \<^verbatim>\<open>main\<close> are \<^verbatim>\<open>None\<close> or a string, \<^verbatim>\<open>steps\<close> is \<^verbatim>\<open>None\<close> or
  the step list as loaded from the Guild file.
\<close>

record opdef_exec =
  exec' :: "string option"
  main :: "string option"
  steps :: pyval

datatype cmd_error = InvalidOpDef string

type_synonym run_attrs = "(string \<times> pyval) list"

definition run_attrs_for_steps :: "opdef_exec \<Rightarrow> run_attrs" where
  "run_attrs_for_steps opdef = [(''steps'', steps opdef)]"

text \<open>
  \<^verbatim>\<open>_opdef_exec_and_run_attrs\<close>: the result is the template, the run attributes
  (\<^verbatim>\<open>None\<close> or a dict) and the warnings logged on the way; the raise is \<open>Inl\<close>.
\<close>

definition opdef_exec_and_run_attrs ::
  "opdef_exec \<Rightarrow> cmd_error + (string \<times> run_attrs option \<times> string list)" where
  "opdef_exec_and_run_attrs opdef =
     (if str_truthy (exec' opdef) then
        Inr (the (exec' opdef), None,
             (if str_truthy (main opdef)
              then [''operation 'exec' and 'main' both specified, ignoring '' @ quoted ''main'']
              else []) @
             (if py_truthy (steps opdef)
              then [''operation 'exec' and 'steps' both specified, ignoring '' @ quoted ''steps'']
              else []))
      else if str_truthy (main opdef) then
        Inr (MAIN_EXEC, None,
             (if py_truthy (steps opdef)
              then [''operation 'main' and 'steps' both specified, ignoring '' @ quoted ''steps'']
              else []))
      else if py_truthy (steps opdef) then
        Inr (STEPS_EXEC, Some (run_attrs_for_steps opdef), [])
      else Inl (InvalidOpDef ''must define either exec, main, or steps''))"

subsection \<open>Template expansion\<close>

text \<open>
  \<^verbatim>\<open>_apply_main_args\<close>: the \<^verbatim>\<open>while\<close> loop over the index \<open>i\<close>; the slice
  assignment \<^verbatim>\<open>exec_args[i:i + 1] = main_args\<close> replaces the one token at \<open>i\<close> by the
  tokens of \<open>main_args\<close>, then \<open>i\<close> is advanced by \<open>len(main_args)\<close> and, as in every
  iteration, by one.
\<close>

function apply_main_args_from :: "nat \<Rightarrow> string list \<Rightarrow> string list \<Rightarrow> string list" where
  "apply_main_args_from i main_args exec_args =
     (if i < length exec_args then
        (if exec_args ! i = ''${main_args}''
         then apply_main_args_from (i + length main_args + 1) main_args
                (take i exec_args @ main_args @ drop (i + 1) exec_args)
         else apply_main_args_from (i + 1) main_args exec_args)
      else exec_args)"
  by pat_completeness auto
termination
  by (relation "measure (\<lambda>(i, m, e). length e - i)") auto

definition apply_main_args :: "string list \<Rightarrow> string list \<Rightarrow> string list" where
  "apply_main_args main_args exec_args = apply_main_args_from 0 main_args exec_args"

text \<open>\<^verbatim>\<open>_apply_flag_args_marker\<close>: every token equal to the placeholder is overwritten.\<close>

definition apply_flag_args_marker :: "string list \<Rightarrow> string list" where
  "apply_flag_args_marker exec_args =
     map (\<lambda>val. if val = ''${flag_args}'' then ''__flag_args__'' else val) exec_args"

text \<open>
  \<^verbatim>\<open>str.replace(pattern, text)\<close> for a non-empty pattern: the occurrences are
  replaced from left to right, without overlap.
\<close>

function str_replace :: "string \<Rightarrow> string \<Rightarrow> string \<Rightarrow> string" where
  "str_replace pattern text [] = []"
| "str_replace pattern text (c # s) =
     (if pattern \<noteq> [] \<and> take (length pattern) (c # s) = pattern
      then text @ str_replace pattern text (drop (length pattern) (c # s))
      else c # str_replace pattern text s)"
  by pat_completeness auto
termination
  by (relation "measure (\<lambda>(p, t, s). length s)") auto

text \<open>
  \<^verbatim>\<open>_apply_other_args\<close>, for the one pattern of \<^verbatim>\<open>repl\<close>; \<open>dir\<close> is
  \<^verbatim>\<open>opdef.guildfile.dir\<close> (\<^verbatim>\<open>None\<close> or a string).
\<close>

definition apply_other_args :: "string list \<Rightarrow> string option \<Rightarrow> string list" where
  "apply_other_args args dir =
     map (\<lambda>val. if val \<noteq> [] \<and> str_truthy dir
                 then str_replace ''${project_dir}'' (the dir) val else val) args"

text \<open>
  \<^verbatim>\<open>_op_cmd_args_and_run_attrs\<close> with \<^verbatim>\<open>split_cmd\<close>, for \<^verbatim>\<open>main\<close> and
  \<^verbatim>\<open>exec\<close> that are \<^verbatim>\<open>None\<close> or a string. \<^verbatim>\<open>util.shlex_split\<close> is not part of the
  module: it is the parameter \<open>shlex_split\<close>, which is \<open>None\<close> where the call raises
  (\<^verbatim>\<open>ValueError\<close>, for a string that cannot be split). The main arguments are split
  first, before the template is selected, so their raise comes before \<open>InvalidOpDef\<close>.
\<close>

datatype op_cmd_error = ShlexValueError | OpDefError cmd_error

definition op_cmd_args_and_run_attrs ::
  "(string \<Rightarrow> string list option) \<Rightarrow> opdef_exec \<Rightarrow> string option \<Rightarrow>
   op_cmd_error + (string list \<times> run_attrs option \<times> string list)" where
  "op_cmd_args_and_run_attrs shlex_split opdef dir =
     (case shlex_split (case main opdef of None \<Rightarrow> [] | Some m \<Rightarrow> m) of
        None \<Rightarrow> Inl ShlexValueError
      | Some main_args \<Rightarrow>
          (case opdef_exec_and_run_attrs opdef of
             Inl e \<Rightarrow> Inl (OpDefError e)
           | Inr (exec_str, attrs, warnings) \<Rightarrow>
               (case shlex_split exec_str of
                  None \<Rightarrow> Inl ShlexValueError
                | Some exec_args \<Rightarrow>
                    Inr (apply_other_args
                           (apply_flag_args_marker (apply_main_args main_args exec_args)) dir,
                         attrs, warnings))))"

section \<open>Wait for proc\<close>

text \<open>
  Time is counted in milliseconds. The clock is read by \<^verbatim>\<open>time.time()\<close> and moves
  only in \<^verbatim>\<open>time.sleep\<close>. The process handle is not owned by the supervisor: what
  \<^verbatim>\<open>p.poll()\<close> answers is a matter of the process, so a process is any function from
  the time of the poll and the signals sent so far to the return code (\<open>None\<close> while it
  runs).
\<close>

record signals =
  term_sent :: "nat option"
  kill_sent :: "nat option"

type_synonym proc = "nat \<Rightarrow> signals \<Rightarrow> int option"














section \<open>Run output\<close>

type_synonym byte = "8 word"

text \<open>
  The record holds the attributes of a \<^verbatim>\<open>RunOutput\<close> object and, with them, what the
  object writes to: the two files of the run directory (\<open>output_file\<close>,
  \<open>index_file\<close>), the bytes mirrored to \<^verbatim>\<open>sys.stdout\<close> and \<^verbatim>\<open>sys.stderr\<close>, the
  lines handed to the output callback and the number of clock readings made so far.

  A pipe of the process delivers the chunks that \<^verbatim>\<open>os.read\<close> returns, in order; when
  they are used up the read returns \<^verbatim>\<open>b""\<close> if the pipe gets closed (\<open>closes\<close>) and
  blocks for ever otherwise.
\<close>

record pipe =
  chunks :: "byte list list"
  closes :: bool

record popen =
  stdout :: "pipe option"
  stderr :: "pipe option"

datatype handle = OpenFile | ClosedFile

datatype tee_error = StructError | OSError

datatype tstatus = Running | Finished | Crashed tee_error

text \<open>
  A reader thread: the arguments of \<^verbatim>\<open>_gen_tee_run\<close> (the input stream, whether a
  file number of the output stream is in use, the stream type) and its local \<open>line\<close>.
\<close>

record tee =
  input_stream :: pipe
  stream_fileno :: bool
  stream_type :: nat
  line :: "byte list"
  status :: tstatus

record run_output =
  quiet :: bool
  output_cb :: "(byte list \<Rightarrow> bool) option"
  is_open :: bool
  proc :: "popen option"
  output' :: "handle option"
  index :: "handle option"
  out_tee :: "tee option"
  err_tee :: "tee option"
  output_file :: "byte list"
  index_file :: "byte list"
  mirrored :: "(nat \<times> byte list) list"
  cb_written :: "byte list list"
  clock_reads :: nat

datatype ro_error = RuntimeError string | AssertionError

text \<open>
  \<^verbatim>\<open>RunOutput.__init__\<close>. The callback is a function that says whether its
  \<^verbatim>\<open>write\<close> accepts the line (\<open>False\<close>: it raises).
\<close>

definition new_run_output :: "bool \<Rightarrow> (byte list \<Rightarrow> bool) option \<Rightarrow> run_output" where
  "new_run_output q cb =
     \<lparr>quiet = q, output_cb = cb, is_open = False, proc = None, output' = None, index = None,
      out_tee = None, err_tee = None, output_file = [], index_file = [], mirrored = [],
      cb_written = [], clock_reads = 0\<rparr>"

definition closed :: "run_output \<Rightarrow> bool" where
  "closed ro = (\<not> is_open ro)"

definition assert_closed :: "run_output \<Rightarrow> ro_error option" where
  "assert_closed ro =
     (if is_open ro then Some (RuntimeError ''already open'')
      else if proc ro \<noteq> None \<or> output' ro \<noteq> None \<or> index ro \<noteq> None
              \<or> out_tee ro \<noteq> None \<or> err_tee ro \<noteq> None
      then Some AssertionError
      else None)"

definition assert_open :: "run_output \<Rightarrow> ro_error option" where
  "assert_open ro =
     (if \<not> is_open ro then Some (RuntimeError ''not open'')
      else if proc ro = None \<or> output' ro = None \<or> index ro = None \<or> out_tee ro = None
              \<or> (stderr (the (proc ro)) \<noteq> None \<and> err_tee ro = None)
      then Some AssertionError
      else None)"

text \<open>
  The start of a reader thread: \<^verbatim>\<open>stream_fileno\<close> is set when the output is not
  quiet and the stream of the controlling process has a file number.
\<close>

definition start_tee :: "run_output \<Rightarrow> pipe \<Rightarrow> bool \<Rightarrow> nat \<Rightarrow> tee" where
  "start_tee ro inp has_fileno ty =
     \<lparr>input_stream = inp, stream_fileno = (\<not> quiet ro \<and> has_fileno), stream_type = ty,
      line = [], status = Running\<rparr>"

text \<open>
  \<^verbatim>\<open>RunOutput.open\<close>; \<open>sys_out\<close> and \<open>sys_err\<close> say whether \<^verbatim>\<open>sys.stdout\<close> and
  \<^verbatim>\<open>sys.stderr\<close> have a file number. Both files are opened with mode \<^verbatim>\<open>wb\<close>, which
  empties them. The result is the raise, if any, and the object after the call.
\<close>

definition open_output :: "bool \<Rightarrow> bool \<Rightarrow> popen \<Rightarrow> run_output \<Rightarrow> ro_error option \<times> run_output" where
  "open_output sys_out sys_err p ro =
     (case assert_closed ro of
        Some e \<Rightarrow> (Some e, ro)
      | None \<Rightarrow>
          (case stdout p of
             None \<Rightarrow> (Some (RuntimeError ''proc stdout must be a PIPE''), ro)
           | Some out \<Rightarrow>
               (let ro1 = ro\<lparr>proc := Some p, output' := Some OpenFile, output_file := [],
                              index := Some OpenFile, index_file := []\<rparr>;
                    ro2 = ro1\<lparr>out_tee := Some (start_tee ro1 out sys_out 0)\<rparr>;
                    ro3 = (case stderr p of
                             None \<Rightarrow> ro2
                           | Some err \<Rightarrow> ro2\<lparr>err_tee := Some (start_tee ro2 err sys_err 1)\<rparr>)
                in (None, ro3\<lparr>is_open := True\<rparr>))))"

text \<open>
  \<^verbatim>\<open>struct.pack("!QB", ms, stream_type)\<close>: eight bytes of \<open>ms\<close>, most significant
  first, then one byte; the call raises when a number does not fit.
\<close>

definition index_entry :: "nat \<Rightarrow> nat \<Rightarrow> byte list" where
  "index_entry ms ty =
     map (\<lambda>k. of_nat (ms div 256 ^ k mod 256)) [7, 6, 5, 4, 3, 2, 1, 0] @ [of_nat ty]"

definition struct_pack_QB :: "nat \<Rightarrow> nat \<Rightarrow> byte list option" where
  "struct_pack_QB ms ty = (if ms < 2 ^ 64 \<and> ty < 256 then Some (index_entry ms ty) else None)"

text \<open>
  \<^verbatim>\<open>_output_eol\<close>; \<open>clk n\<close> is what \<^verbatim>\<open>int(time.time() * 1000)\<close> gives at the
  \<open>n\<close>-th reading of the clock. A raise comes with the state it leaves behind.
\<close>

definition output_eol ::
  "(nat \<Rightarrow> nat) \<Rightarrow> byte list \<Rightarrow> nat \<Rightarrow> run_output \<Rightarrow> (tee_error \<times> run_output) + run_output" where
  "output_eol clk line_bytes ty ro =
     (let ro1 = ro\<lparr>clock_reads := Suc (clock_reads ro)\<rparr> in
      case struct_pack_QB (clk (clock_reads ro)) ty of
        None \<Rightarrow> Inl (StructError, ro1)
      | Some entry \<Rightarrow>
          if index ro1 \<noteq> Some OpenFile then Inl (OSError, ro1)
          else
            (let ro2 = ro1\<lparr>index_file := index_file ro1 @ entry\<rparr> in
             case output_cb ro2 of
               None \<Rightarrow> Inr ro2
             | Some cb \<Rightarrow>
                 if cb line_bytes then Inr (ro2\<lparr>cb_written := cb_written ro2 @ [line_bytes]\<rparr>)
                 else Inr (ro2\<lparr>output_cb := None\<rparr>)))"

text \<open>The \<^verbatim>\<open>for b in buf\<close> loop of \<^verbatim>\<open>_gen_tee_run\<close>.\<close>

fun scan_buf ::
  "(nat \<Rightarrow> nat) \<Rightarrow> nat \<Rightarrow> byte list \<Rightarrow> byte list \<Rightarrow> run_output \<Rightarrow>
   (tee_error \<times> run_output) + (byte list \<times> run_output)" where
  "scan_buf clk ty [] pending ro = Inr (pending, ro)"
| "scan_buf clk ty (b # bs) pending ro =
     (if b < 9 then scan_buf clk ty bs pending ro
      else if b = 10 then
        (case output_eol clk (pending @ [b]) ty ro of
           Inl e \<Rightarrow> Inl e
         | Inr ro' \<Rightarrow> scan_buf clk ty bs [] ro')
      else scan_buf clk ty bs (pending @ [b]) ro)"

text \<open>The end of the stream: a pending line is flushed, the thread ends.\<close>

definition tee_eof :: "(nat \<Rightarrow> nat) \<Rightarrow> tee \<Rightarrow> run_output \<Rightarrow> tee \<times> run_output" where
  "tee_eof clk t ro =
     (if line t \<noteq> [] then
        (case output_eol clk (line t) (stream_type t) ro of
           Inl (e, ro') \<Rightarrow> (t\<lparr>status := Crashed e\<rparr>, ro')
         | Inr ro' \<Rightarrow> (t\<lparr>status := Finished\<rparr>, ro'))
      else (t\<lparr>status := Finished\<rparr>, ro))"

text \<open>
  One iteration of the \<^verbatim>\<open>while True\<close> loop of \<^verbatim>\<open>_gen_tee_run\<close>: one read and,
  for a chunk, the block under the output lock. A thread that has ended, and one whose
  read blocks for ever, do nothing.
\<close>

definition tee_iteration :: "(nat \<Rightarrow> nat) \<Rightarrow> tee \<Rightarrow> run_output \<Rightarrow> tee \<times> run_output" where
  "tee_iteration clk t ro =
     (if status t \<noteq> Running then (t, ro)
      else
        (case chunks (input_stream t) of
           [] \<Rightarrow> if closes (input_stream t) then tee_eof clk t ro else (t, ro)
         | buf # rest \<Rightarrow>
             (let t1 = t\<lparr>input_stream := (input_stream t)\<lparr>chunks := rest\<rparr>\<rparr> in
              if buf = [] then tee_eof clk t1 ro
              else
                (let ro1 = (if stream_fileno t1
                            then ro\<lparr>mirrored := mirrored ro @ [(stream_type t1, buf)]\<rparr>
                            else ro)
                 in if output' ro1 \<noteq> Some OpenFile then (t1\<lparr>status := Crashed OSError\<rparr>, ro1)
                    else
                      (case scan_buf clk (stream_type t1) buf (line t1)
                              (ro1\<lparr>output_file := output_file ro1 @ buf\<rparr>) of
                         Inl (e, ro') \<Rightarrow> (t1\<lparr>status := Crashed e\<rparr>, ro')
                       | Inr (pending, ro') \<Rightarrow> (t1\<lparr>line := pending\<rparr>, ro'))))))"

text \<open>
  The two reader threads run concurrently; the output lock makes each iteration one
  step. A schedule says which thread makes the next step.
\<close>

datatype which = OutTee | ErrTee

definition thread_step :: "(nat \<Rightarrow> nat) \<Rightarrow> which \<Rightarrow> run_output \<Rightarrow> run_output" where
  "thread_step clk w ro =
     (case w of
        OutTee \<Rightarrow>
          (case out_tee ro of
             None \<Rightarrow> ro
           | Some t \<Rightarrow> (let (t', ro') = tee_iteration clk t ro in ro'\<lparr>out_tee := Some t'\<rparr>))
      | ErrTee \<Rightarrow>
          (case err_tee ro of
             None \<Rightarrow> ro
           | Some t \<Rightarrow> (let (t', ro') = tee_iteration clk t ro in ro'\<lparr>err_tee := Some t'\<rparr>)))"

fun run_schedule :: "(nat \<Rightarrow> nat) \<Rightarrow> which list \<Rightarrow> run_output \<Rightarrow> run_output" where
  "run_schedule clk [] ro = ro"
| "run_schedule clk (w # ws) ro = run_schedule clk ws (thread_step clk w ro)"

text \<open>
  A thread left to itself makes at most one step per chunk and one for the end of the
  stream.
\<close>

definition steps_left :: "tee option \<Rightarrow> nat" where
  "steps_left t = (case t of None \<Rightarrow> 0 | Some t \<Rightarrow> Suc (length (chunks (input_stream t))))"

definition join :: "(nat \<Rightarrow> nat) \<Rightarrow> which \<Rightarrow> run_output \<Rightarrow> run_output" where
  "join clk w ro =
     run_schedule clk
       (replicate (steps_left (case w of OutTee \<Rightarrow> out_tee ro | ErrTee \<Rightarrow> err_tee ro)) w) ro"

definition is_alive :: "tee option \<Rightarrow> bool" where
  "is_alive t = (case t of None \<Rightarrow> False | Some t \<Rightarrow> status t = Running)"

text \<open>
  \<^verbatim>\<open>RunOutput.wait\<close>: the threads make the steps of \<open>sched\<close> while the caller waits,
  then each thread that is joined runs to its end. The call does not return (\<open>None\<close>)
  when a thread is left blocked in its read.
\<close>

definition wait ::
  "(nat \<Rightarrow> nat) \<Rightarrow> which list \<Rightarrow> run_output \<Rightarrow> (ro_error option \<times> run_output) option" where
  "wait clk sched ro =
     (case assert_open ro of
        Some e \<Rightarrow> Some (Some e, ro)
      | None \<Rightarrow>
          (let ro1 = join clk OutTee (run_schedule clk sched ro) in
           if is_alive (out_tee ro1) then None
           else if err_tee ro1 \<noteq> None then
             (let ro2 = join clk ErrTee ro1 in
              if is_alive (err_tee ro2) then None else Some (None, ro2))
           else Some (None, ro1)))"

text \<open>
  \<^verbatim>\<open>RunOutput.close\<close> with \<^verbatim>\<open>_close\<close>; \<open>acquired\<close> says whether the polling
  \<^verbatim>\<open>_acquire_output_lock\<close> got the lock before its timeout. The result is the raise,
  if any, and the object after the call: a failed assertion on the threads leaves the
  files closed and the attributes set.
\<close>

definition close_file :: "handle option \<Rightarrow> handle option" where
  "close_file h = (case h of None \<Rightarrow> None | Some x \<Rightarrow> Some ClosedFile)"

definition close_output :: "bool \<Rightarrow> run_output \<Rightarrow> ro_error option \<times> run_output" where
  "close_output acquired ro =
     (if \<not> acquired then (Some (RuntimeError ''timeout''), ro)
      else
        (case assert_open ro of
           Some e \<Rightarrow> (Some e, ro)
         | None \<Rightarrow>
             (let ro1 = ro\<lparr>output' := close_file (output' ro), index := close_file (index ro)\<rparr> in
              if is_alive (out_tee ro1) \<or> (err_tee ro1 \<noteq> None \<and> is_alive (err_tee ro1))
              then (Some AssertionError, ro1)
              else (None, ro1\<lparr>proc := None, output' := None, index := None, out_tee := None,
                              err_tee := None, is_open := False\<rparr>))))"

text \<open>A sequence of calls on one object; \<open>Steps\<close> are steps of the reader threads.\<close>

datatype call = Open bool bool popen | Wait "which list" | Close bool | Steps "which list"

definition do_call ::
  "(nat \<Rightarrow> nat) \<Rightarrow> call \<Rightarrow> run_output \<Rightarrow> (ro_error option \<times> run_output) option" where
  "do_call clk c ro =
     (case c of
        Open sys_out sys_err p \<Rightarrow> Some (open_output sys_out sys_err p ro)
      | Wait sched \<Rightarrow> wait clk sched ro
      | Close acquired \<Rightarrow> Some (close_output acquired ro)
      | Steps sched \<Rightarrow> Some (None, run_schedule clk sched ro))"

text \<open>
  The calls are made one after the other, whatever each one raises; the result is the
  list of their outcomes and the last state, or \<open>None\<close> if a call does not return.
\<close>

fun do_calls ::
  "(nat \<Rightarrow> nat) \<Rightarrow> call list \<Rightarrow> run_output \<Rightarrow> (ro_error option list \<times> run_output) option" where
  "do_calls clk [] ro = Some ([], ro)"
| "do_calls clk (c # cs) ro =
     (case do_call clk c ro of
        None \<Rightarrow> None
      | Some (r, ro') \<Rightarrow>
          (case do_calls clk cs ro' of
             None \<Rightarrow> None
           | Some (rs, ro'') \<Rightarrow> Some (r # rs, ro'')))"

subsection \<open>Notions for the index file\<close>

text \<open>The line-feed bytes of some output.\<close>

definition count_lf :: "byte list \<Rightarrow> nat" where
  "count_lf bs = length (filter (\<lambda>b. b = 10) bs)"

text \<open>
  The pending line after some output has been scanned, as the loop keeps it: bytes
  below 9 are left out, a line feed empties it.
\<close>

fun scan_line :: "byte list \<Rightarrow> byte list \<Rightarrow> byte list" where
  "scan_line pending [] = pending"
| "scan_line pending (b # bs) =
     (if b < 9 then scan_line pending bs
      else if b = 10 then scan_line [] bs
      else scan_line (pending @ [b]) bs)"

text \<open>
  A pipe that is closed in the end, delivers no empty chunk before that, and whose
  output ends with a line feed (or has no byte that is kept) once a line has begun.
\<close>

definition lf_terminated :: "pipe \<Rightarrow> bool" where
  "lf_terminated p =
     (closes p \<and> [] \<notin> set (chunks p) \<and> scan_line [] (concat (chunks p)) = [])"

text \<open>
  The index file that holds one record per stream type of \<open>tys\<close>, in this order, the
  first one stamped with the \<open>n\<close>-th reading of the clock.
\<close>

fun index_records :: "(nat \<Rightarrow> nat) \<Rightarrow> nat \<Rightarrow> nat list \<Rightarrow> byte list" where
  "index_records clk n [] = []"
| "index_records clk n (ty # tys) = index_entry (clk n) ty @ index_records clk (Suc n) tys"

text \<open>The value of some bytes read as an unsigned number, most significant byte first.\<close>

definition be_value :: "byte list \<Rightarrow> nat" where
  "be_value bs = foldl (\<lambda>acc b. acc * 256 + unat b) 0 bs"

text \<open>
  The records of an index file, read back nine bytes at a time: the first eight bytes
  as an unsigned number, most significant byte first, and the ninth byte. Bytes left
  over at the end, fewer than nine, are no record.
\<close>

function decode_index :: "byte list \<Rightarrow> (nat \<times> nat) list" where
  "decode_index bs =
     (if length bs < 9 then []
      else (be_value (take 8 bs), unat (bs ! 8)) # decode_index (drop 9 bs))"
  by pat_completeness auto
termination
  by (relation "measure length") auto

declare decode_index.simps [simp del]

text \<open>
  The order in which the chunks of the two streams are taken under the output lock:
  each step of the schedule takes the next chunk of its stream, tagged \<open>0\<close> for the
  standard output and \<open>1\<close> for the standard error (a step of a stream that has no
  chunk left takes nothing); when the schedule is used up, \<^verbatim>\<open>wait\<close> joins the thread
  of the standard output, then that of the standard error.
\<close>

fun interleave :: "which list \<Rightarrow> byte list list \<Rightarrow> byte list list \<Rightarrow> (nat \<times> byte list) list" where
  "interleave [] outs errs = map (Pair 0) outs @ map (Pair 1) errs"
| "interleave (OutTee # ws) [] errs = interleave ws [] errs"
| "interleave (OutTee # ws) (c # outs) errs = (0, c) # interleave ws outs errs"
| "interleave (ErrTee # ws) outs [] = interleave ws outs []"
| "interleave (ErrTee # ws) outs (c # errs) = (1, c) # interleave ws outs errs"

text \<open>
  The stream of every line that some tagged chunks complete, in the order of the
  chunks: a chunk completes one line per line feed it holds.
\<close>

definition line_tags :: "(nat \<times> byte list) list \<Rightarrow> nat list" where
  "line_tags ord = concat (map (\<lambda>(ty, buf). replicate (count_lf buf) ty) ord)"

text \<open>The chunks that a reader thread has still to read.\<close>

definition chunks_left :: "tee option \<Rightarrow> byte list list" where
  "chunks_left t = (case t of None \<Rightarrow> [] | Some t \<Rightarrow> chunks (input_stream t))"

subsection \<open>Invariant of a running capture\<close>

definition tee_ok :: "nat \<Rightarrow> tee \<Rightarrow> bool" where
  "tee_ok ty t =
     (stream_type t = ty \<and> closes (input_stream t) \<and> [] \<notin> set (chunks (input_stream t))
      \<and> scan_line (line t) (concat (chunks (input_stream t))) = []
      \<and> (status t = Running \<or> (status t = Finished \<and> chunks (input_stream t) = [])))"

definition lf_due :: "tee option \<Rightarrow> nat" where
  "lf_due t = (case t of None \<Rightarrow> 0 | Some t \<Rightarrow> count_lf (concat (chunks (input_stream t))))"

definition capture_inv :: "(nat \<Rightarrow> nat) \<Rightarrow> nat list \<Rightarrow> run_output \<Rightarrow> bool" where
  "capture_inv clk tys ro =
     (output' ro = Some OpenFile \<and> index ro = Some OpenFile
      \<and> index_file ro = index_records clk 0 tys \<and> clock_reads ro = length tys
      \<and> (case out_tee ro of None \<Rightarrow> False | Some t \<Rightarrow> tee_ok 0 t)
      \<and> (case err_tee ro of None \<Rightarrow> True | Some t \<Rightarrow> tee_ok 1 t))"

text \<open>
  What every step of a reader thread keeps: the records written for a stream and the
  line feeds that its thread has still to read add up to the same number.
\<close>

definition the_tee :: "which \<Rightarrow> run_output \<Rightarrow> tee option" where
  "the_tee w ro = (case w of OutTee \<Rightarrow> out_tee ro | ErrTee \<Rightarrow> err_tee ro)"

definition keeps_due :: "nat list \<Rightarrow> run_output \<Rightarrow> nat list \<Rightarrow> run_output \<Rightarrow> bool" where
  "keeps_due tys ro tys' ro' =
     (count_list tys' 0 + lf_due (out_tee ro') = count_list tys 0 + lf_due (out_tee ro)
      \<and> count_list tys' 1 + lf_due (err_tee ro') = count_list tys 1 + lf_due (err_tee ro)
      \<and> length tys' + lf_due (out_tee ro') + lf_due (err_tee ro')
          = length tys + lf_due (out_tee ro) + lf_due (err_tee ro)
      \<and> (err_tee ro' = None) = (err_tee ro = None))"

section \<open>Flag vals for opdef\<close>

subsection \<open>Comparison of values\<close>

text \<open>The number that a \<^verbatim>\<open>bool\<close>, an \<^verbatim>\<open>int\<close> or a \<^verbatim>\<open>float\<close> stands for.\<close>

fun num_of :: "pyval \<Rightarrow> pyfloat option" where
  "num_of (PBool b) = Some (Fin (if b then 1 else 0))"
| "num_of (PInt i) = Some (Fin (of_int i))"
| "num_of (PFloat f) = Some f"
| "num_of v = None"

fun float_eq :: "pyfloat \<Rightarrow> pyfloat \<Rightarrow> bool" where
  "float_eq (Fin a) (Fin b) = (a = b)"
| "float_eq (Inf s) (Inf s') = (s = s')"
| "float_eq x y = False"

text \<open>\<open>Inf True\<close> is the positive infinity. NaN is neither below nor above anything.\<close>

fun float_lt :: "pyfloat \<Rightarrow> pyfloat \<Rightarrow> bool" where
  "float_lt (Fin a) (Fin b) = (a < b)"
| "float_lt (Fin a) (Inf s) = s"
| "float_lt (Inf s) (Fin b) = (\<not> s)"
| "float_lt (Inf s) (Inf s') = (\<not> s \<and> s')"
| "float_lt x y = False"

text \<open>
  \<^verbatim>\<open>a == b\<close>: numbers are compared by value across \<^verbatim>\<open>bool\<close>, \<^verbatim>\<open>int\<close> and
  \<^verbatim>\<open>float\<close>, strings and lists with their like, and \<^verbatim>\<open>None\<close> equals itself only.
\<close>

fun py_eq :: "pyval \<Rightarrow> pyval \<Rightarrow> bool"
  and py_eq_list :: "pyval list \<Rightarrow> pyval list \<Rightarrow> bool" where
  "py_eq PNone b = (b = PNone)"
| "py_eq (PStr s) b = (b = PStr s)"
| "py_eq (PList xs) b = (case b of PList ys \<Rightarrow> py_eq_list xs ys | _ \<Rightarrow> False)"
| "py_eq (PBool x) b =
     (case num_of b of None \<Rightarrow> False | Some g \<Rightarrow> float_eq (Fin (if x then 1 else 0)) g)"
| "py_eq (PInt i) b = (case num_of b of None \<Rightarrow> False | Some g \<Rightarrow> float_eq (Fin (of_int i)) g)"
| "py_eq (PFloat f) b = (case num_of b of None \<Rightarrow> False | Some g \<Rightarrow> float_eq f g)"
| "py_eq_list [] ys = (ys = [])"
| "py_eq_list (x # xs) ys = (case ys of [] \<Rightarrow> False | y # ys' \<Rightarrow> py_eq x y \<and> py_eq_list xs ys')"

datatype exn = ValueError string | TypeError string | OverflowError | AssertionFailed

text \<open>
  \<^verbatim>\<open>a < b\<close>: numbers by value, strings by their characters; every other pairing of
  \<^verbatim>\<open>None\<close>, numbers and strings raises \<^verbatim>\<open>TypeError\<close>. Lists are compared at the first
  position where they differ, else by length.
\<close>

fun py_lt :: "pyval \<Rightarrow> pyval \<Rightarrow> exn + bool"
  and py_lt_list :: "pyval list \<Rightarrow> pyval list \<Rightarrow> exn + bool" where
  "py_lt (PStr s) b =
     (case b of PStr s' \<Rightarrow> Inr (lexordp (\<lambda>c d. of_char c < (of_char d :: nat)) s s')
      | _ \<Rightarrow> Inl (TypeError ''not supported between instances''))"
| "py_lt (PList xs) b =
     (case b of PList ys \<Rightarrow> py_lt_list xs ys
      | _ \<Rightarrow> Inl (TypeError ''not supported between instances''))"
| "py_lt PNone b = Inl (TypeError ''not supported between instances'')"
| "py_lt (PBool x) b =
     (case num_of b of None \<Rightarrow> Inl (TypeError ''not supported between instances'')
      | Some g \<Rightarrow> Inr (float_lt (Fin (if x then 1 else 0)) g))"
| "py_lt (PInt i) b =
     (case num_of b of None \<Rightarrow> Inl (TypeError ''not supported between instances'')
      | Some g \<Rightarrow> Inr (float_lt (Fin (of_int i)) g))"
| "py_lt (PFloat f) b =
     (case num_of b of None \<Rightarrow> Inl (TypeError ''not supported between instances'')
      | Some g \<Rightarrow> Inr (float_lt f g))"
| "py_lt_list [] ys = Inr (ys \<noteq> [])"
| "py_lt_list (x # xs) ys =
     (case ys of [] \<Rightarrow> Inr False
      | y # ys' \<Rightarrow> if py_eq x y then py_lt_list xs ys' else py_lt x y)"

subsection \<open>Dicts\<close>

text \<open>
  A dict with string keys, in insertion order: assigning to a key that is present keeps
  its place, a new key goes to the end.
\<close>

type_synonym pydict = "(string \<times> pyval) list"

definition dict_get :: "pydict \<Rightarrow> string \<Rightarrow> pyval option" where
  "dict_get d k = map_of d k"

text \<open>\<^verbatim>\<open>d.get(k)\<close>, which is \<^verbatim>\<open>None\<close> for a key that is absent.\<close>

definition dict_get_none :: "pydict \<Rightarrow> string \<Rightarrow> pyval" where
  "dict_get_none d k = (case map_of d k of None \<Rightarrow> PNone | Some v \<Rightarrow> v)"

fun dict_set :: "pydict \<Rightarrow> string \<Rightarrow> pyval \<Rightarrow> pydict" where
  "dict_set [] k v = [(k, v)]"
| "dict_set ((k', v') # d) k v = (if k' = k then (k, v) # d else (k', v') # dict_set d k v)"

definition dict_pop :: "pydict \<Rightarrow> string \<Rightarrow> pydict" where
  "dict_pop d k = filter (\<lambda>(k', v). k' \<noteq> k) d"

definition dict_has :: "pydict \<Rightarrow> string \<Rightarrow> bool" where
  "dict_has d k = (k \<in> set (map fst d))"

text \<open>\<^verbatim>\<open>dict(items)\<close>: a later item with the same key replaces the value.\<close>

definition dict_of :: "(string \<times> pyval) list \<Rightarrow> pydict" where
  "dict_of items = foldl (\<lambda>d (k, v). dict_set d k v) [] items"

subsection \<open>Flag definitions and what the module imports\<close>

text \<open>
  The attributes of \<^verbatim>\<open>guildfile.FlagDef\<close> and \<^verbatim>\<open>guildfile.FlagChoice\<close> that the
  functions read. An attribute that is \<^verbatim>\<open>None\<close> or a string is a \<open>string option\<close>;
  \<^verbatim>\<open>min\<close>, \<^verbatim>\<open>max\<close>, \<^verbatim>\<open>default\<close>, \<^verbatim>\<open>arg_split\<close> and a choice's \<^verbatim>\<open>alias\<close> are
  values; the \<^verbatim>\<open>flags\<close> of a choice is a dict.
\<close>

record choice =
  choice_value :: pyval
  choice_alias :: pyval
  flags :: pydict

record flagdef =
  name :: string
  alias' :: "string option"
  type' :: "string option"
  default' :: pyval
  required :: bool
  min' :: pyval
  max' :: pyval
  choices :: "choice list"
  allow_other :: bool
  arg_split :: pyval

text \<open>
  What the functions call and the module does not define: the functions of
  \<^verbatim>\<open>flag_util\<close>, the conversions of the built-in \<^verbatim>\<open>str\<close>, \<^verbatim>\<open>int\<close> and \<^verbatim>\<open>float\<close>, and
  the functions of \<^verbatim>\<open>os.path\<close>. They are parameters of the model, so what is proved
  holds whatever they do.
\<close>

record ext =
  is_flag_function :: "pyval \<Rightarrow> bool"
  split_encoded_flag_val :: "string \<Rightarrow> pyval \<Rightarrow> string list"
  join_splittable_flag_vals :: "pyval list \<Rightarrow> pyval \<Rightarrow> pyval"
  encode_flag_val :: "pyval \<Rightarrow> string"
  decode_flag_val :: "string \<Rightarrow> pyval"
  str_of :: "pyval \<Rightarrow> string"
  int_of_str :: "string \<Rightarrow> int option"
  float_of_str :: "string \<Rightarrow> pyfloat option"
  float_of_int :: "int \<Rightarrow> pyfloat option"
  expanduser :: "string \<Rightarrow> string"
  isabs :: "string \<Rightarrow> bool"
  abspath :: "string \<Rightarrow> string"
  path_exists :: "pyval \<Rightarrow> exn + bool"

datatype flag_error =
    AliasAndNameSpecifiedError string string
  | InvalidFlagValue pyval string string
  | NoSuchFlagError string
  | InvalidFlagChoice pyval string
  | MissingRequiredFlags "flagdef list"
  | Uncaught exn

subsection \<open>Alias normalization and defaults\<close>

text \<open>\<^verbatim>\<open>normalize_flag_aliases\<close>; the raise carries its arguments in the order of the call.\<close>

fun normalize_flag_aliases :: "flagdef list \<Rightarrow> pydict \<Rightarrow> bool \<Rightarrow> flag_error + pydict" where
  "normalize_flag_aliases [] flag_vals force = Inr flag_vals"
| "normalize_flag_aliases (fd # fds) flag_vals force =
     (if \<not> str_truthy (alias' fd) \<or> alias' fd = Some (name fd)
      then normalize_flag_aliases fds flag_vals force
      else if dict_has flag_vals (the (alias' fd)) \<and> dict_has flag_vals (name fd) then
        (if \<not> force then Inl (AliasAndNameSpecifiedError (name fd) (the (alias' fd)))
         else normalize_flag_aliases fds flag_vals force)
      else
        (case dict_get flag_vals (the (alias' fd)) of
           None \<Rightarrow> normalize_flag_aliases fds flag_vals force
         | Some val \<Rightarrow>
             normalize_flag_aliases fds
               (dict_set (dict_pop flag_vals (the (alias' fd))) (name fd) val) force))"

text \<open>\<^verbatim>\<open>_apply_default_flag_vals\<close>.\<close>

fun apply_default_flag_vals :: "flagdef list \<Rightarrow> pydict \<Rightarrow> pydict" where
  "apply_default_flag_vals [] flag_vals = flag_vals"
| "apply_default_flag_vals (fd # fds) flag_vals =
     apply_default_flag_vals fds
       (if \<not> dict_has flag_vals (name fd) then dict_set flag_vals (name fd) (default' fd)
        else flag_vals)"

subsection \<open>Coercion\<close>

text \<open>
  \<^verbatim>\<open>_try_coerce_flag_val\<close>: the conversions are tried in order; a \<^verbatim>\<open>ValueError\<close>
  goes on to the next one, any other exception leaves the function.
\<close>

fun try_coerce_flag_val ::
  "pyval \<Rightarrow> (pyval \<Rightarrow> exn + pyval) list \<Rightarrow> flagdef \<Rightarrow> exn + pyval" where
  "try_coerce_flag_val val [] fd =
     Inl (ValueError (''invalid value for type ''
            @ quoted (case type' fd of None \<Rightarrow> ''None'' | Some t \<Rightarrow> t)))"
| "try_coerce_flag_val val (f # funs) fd =
     (case f val of
        Inr v \<Rightarrow> Inr v
      | Inl (ValueError m) \<Rightarrow> try_coerce_flag_val val funs fd
      | Inl e \<Rightarrow> Inl e)"

text \<open>The built-in \<^verbatim>\<open>str\<close>, \<^verbatim>\<open>int\<close>, \<^verbatim>\<open>float\<close> and \<^verbatim>\<open>bool\<close> as conversions.\<close>

definition conv_str :: "ext \<Rightarrow> pyval \<Rightarrow> exn + pyval" where
  "conv_str E val = Inr (PStr (str_of E val))"

fun conv_int :: "ext \<Rightarrow> pyval \<Rightarrow> exn + pyval" where
  "conv_int E (PInt i) = Inr (PInt i)"
| "conv_int E (PBool b) = Inr (PInt (if b then 1 else 0))"
| "conv_int E (PFloat (Fin r)) = Inr (PInt (if r < 0 then - \<lfloor>- r\<rfloor> else \<lfloor>r\<rfloor>))"
| "conv_int E (PFloat (Inf s)) = Inl OverflowError"
| "conv_int E (PFloat NaN) = Inl (ValueError ''cannot convert float NaN to integer'')"
| "conv_int E (PStr s) =
     (case int_of_str E s of
        None \<Rightarrow> Inl (ValueError ''invalid literal for int() with base 10'')
      | Some i \<Rightarrow> Inr (PInt i))"
| "conv_int E v = Inl (TypeError ''int() argument must be a string or a number'')"

fun conv_float :: "ext \<Rightarrow> pyval \<Rightarrow> exn + pyval" where
  "conv_float E (PFloat f) = Inr (PFloat f)"
| "conv_float E (PInt i) =
     (case float_of_int E i of None \<Rightarrow> Inl OverflowError | Some f \<Rightarrow> Inr (PFloat f))"
| "conv_float E (PBool b) = Inr (PFloat (Fin (if b then 1 else 0)))"
| "conv_float E (PStr s) =
     (case float_of_str E s of
        None \<Rightarrow> Inl (ValueError ''could not convert string to float'')
      | Some f \<Rightarrow> Inr (PFloat f))"
| "conv_float E v = Inl (TypeError ''float() argument must be a string or a number'')"

definition conv_bool :: "pyval \<Rightarrow> exn + pyval" where
  "conv_bool val = Inr (PBool (py_truthy val))"

text \<open>\<^verbatim>\<open>_resolve_rel_path\<close>; \<^verbatim>\<open>os.path.expanduser\<close> raises for what is not a path.\<close>

fun resolve_rel_path :: "ext \<Rightarrow> pyval \<Rightarrow> exn + pyval" where
  "resolve_rel_path E (PStr s) =
     (let val = expanduser E s in
      if val \<noteq> [] \<and> \<not> isabs E val then Inr (PStr (abspath E val)) else Inr (PStr val))"
| "resolve_rel_path E v = Inl (TypeError ''expected str, bytes or os.PathLike object'')"

text \<open>\<^verbatim>\<open>isinstance(val, float)\<close> and \<^verbatim>\<open>isinstance(val, (float, int))\<close>.\<close>

fun is_float :: "pyval \<Rightarrow> bool" where
  "is_float (PFloat f) = True"
| "is_float v = False"

fun is_float_or_int :: "pyval \<Rightarrow> bool" where
  "is_float_or_int (PFloat f) = True"
| "is_float_or_int (PInt i) = True"
| "is_float_or_int (PBool b) = True"
| "is_float_or_int v = False"

text \<open>\<^verbatim>\<open>_coerce_typed_flag_value\<close> (the warning for an unknown type is not modelled).\<close>

definition coerce_typed_flag_value :: "ext \<Rightarrow> pyval \<Rightarrow> flagdef \<Rightarrow> exn + pyval" where
  "coerce_typed_flag_value E val fd =
     (if type' fd = None then Inl AssertionFailed
      else if type' fd = Some ''string'' then try_coerce_flag_val val [conv_str E] fd
      else if type' fd = Some ''int'' then
        (if is_float val then Inl (ValueError (''invalid value for type '' @ quoted ''int''))
         else try_coerce_flag_val val [conv_int E] fd)
      else if type' fd = Some ''float'' then try_coerce_flag_val val [conv_float E] fd
      else if type' fd = Some ''boolean'' then try_coerce_flag_val val [conv_bool] fd
      else if type' fd = Some ''number'' then
        (if is_float_or_int val then Inr val
         else try_coerce_flag_val val [conv_int E, conv_float E] fd)
      else if type' fd = Some ''path'' \<or> type' fd = Some ''existing-path''
        then resolve_rel_path E val
      else Inr val)"

text \<open>A list comprehension over calls that may raise: the first raise ends it.\<close>

fun sequence :: "('e + 'a) list \<Rightarrow> 'e + 'a list" where
  "sequence [] = Inr []"
| "sequence (x # xs) =
     (case x of
        Inl e \<Rightarrow> Inl e
      | Inr v \<Rightarrow> (case sequence xs of Inl e \<Rightarrow> Inl e | Inr vs \<Rightarrow> Inr (v # vs)))"

definition ensure_encoded_flag_val :: "ext \<Rightarrow> pyval \<Rightarrow> string" where
  "ensure_encoded_flag_val E val = (case val of PStr s \<Rightarrow> s | _ \<Rightarrow> encode_flag_val E val)"

text \<open>\<^verbatim>\<open>_coerce_flag_val_split_parts\<close>.\<close>

definition coerce_flag_val_split_parts :: "ext \<Rightarrow> pyval \<Rightarrow> flagdef \<Rightarrow> exn + pyval" where
  "coerce_flag_val_split_parts E val fd =
     (if type' fd = None then Inl AssertionFailed
      else
        (let encoded = ensure_encoded_flag_val E val;
             parts = split_encoded_flag_val E encoded (arg_split fd)
         in case sequence (map (\<lambda>part. coerce_typed_flag_value E (PStr part) fd) parts) of
              Inl e \<Rightarrow> Inl e
            | Inr coerced \<Rightarrow> Inr (join_splittable_flag_vals E coerced (arg_split fd))))"

text \<open>\<^verbatim>\<open>coerce_flag_value\<close>, for a flag definition that is given.\<close>

fun coerce_flag_value :: "ext \<Rightarrow> pyval \<Rightarrow> flagdef \<Rightarrow> exn + pyval"
  and coerce_flag_values :: "ext \<Rightarrow> pyval list \<Rightarrow> flagdef \<Rightarrow> exn + pyval list" where
  "coerce_flag_value E val fd =
     (if val = PNone \<or> \<not> str_truthy (type' fd) \<or> type' fd = Some ''auto''
         \<or> is_flag_function E val
      then Inr val
      else
        (case val of
           PList xs \<Rightarrow>
             (case coerce_flag_values E xs fd of Inl e \<Rightarrow> Inl e | Inr ys \<Rightarrow> Inr (PList ys))
         | _ \<Rightarrow>
             if py_truthy (arg_split fd) then coerce_flag_val_split_parts E val fd
             else coerce_typed_flag_value E val fd))"
| "coerce_flag_values E [] fd = Inr []"
| "coerce_flag_values E (x # xs) fd =
     (case coerce_flag_value E x fd of
        Inl e \<Rightarrow> Inl e
      | Inr y \<Rightarrow> (case coerce_flag_values E xs fd of Inl e \<Rightarrow> Inl e | Inr ys \<Rightarrow> Inr (y # ys)))"

text \<open>
  \<^verbatim>\<open>flagdef_lookup\<close> of \<^verbatim>\<open>_apply_coerce_flag_vals\<close>: of several definitions with one
  name the last one is kept.
\<close>

definition flagdef_lookup :: "flagdef list \<Rightarrow> string \<Rightarrow> flagdef option" where
  "flagdef_lookup flagdefs n =
     (case filter (\<lambda>fd. name fd = n) flagdefs of [] \<Rightarrow> None | fds \<Rightarrow> Some (last fds))"

text \<open>
  \<^verbatim>\<open>_coerced_flag_value\<close>: \<^verbatim>\<open>ValueError\<close> and \<^verbatim>\<open>TypeError\<close> become
  \<open>InvalidFlagValue\<close>, other exceptions pass.
\<close>

definition coerced_flag_value ::
  "ext \<Rightarrow> string \<Rightarrow> pyval \<Rightarrow> flagdef list \<Rightarrow> flag_error + pyval" where
  "coerced_flag_value E n val flagdefs =
     (case flagdef_lookup flagdefs n of
        None \<Rightarrow> Inr val
      | Some fd \<Rightarrow>
          (case coerce_flag_value E val fd of
             Inr v \<Rightarrow> Inr v
           | Inl (ValueError m) \<Rightarrow> Inl (InvalidFlagValue val (name fd) m)
           | Inl (TypeError m) \<Rightarrow> Inl (InvalidFlagValue val (name fd) m)
           | Inl e \<Rightarrow> Inl (Uncaught e)))"

text \<open>
  \<^verbatim>\<open>_apply_coerce_flag_vals\<close>: the loop over the items; with \<open>force\<close> a value that
  cannot be coerced stays as it is.
\<close>

fun apply_coerce_flag_vals ::
  "ext \<Rightarrow> flagdef list \<Rightarrow> bool \<Rightarrow> pydict \<Rightarrow> flag_error + pydict" where
  "apply_coerce_flag_vals E flagdefs force [] = Inr []"
| "apply_coerce_flag_vals E flagdefs force ((n, val) # vals) =
     (case coerced_flag_value E n val flagdefs of
        Inl (InvalidFlagValue v f m) \<Rightarrow>
          (if \<not> force then Inl (InvalidFlagValue v f m)
           else (case apply_coerce_flag_vals E flagdefs force vals of
                   Inl e \<Rightarrow> Inl e
                 | Inr vals' \<Rightarrow> Inr ((n, val) # vals')))
      | Inl e \<Rightarrow> Inl e
      | Inr coerced \<Rightarrow>
          (case apply_coerce_flag_vals E flagdefs force vals of
             Inl e \<Rightarrow> Inl e
           | Inr vals' \<Rightarrow> Inr ((n, coerced) # vals')))"

subsection \<open>Checks\<close>

text \<open>A check returns the exception it raises, if any.\<close>

text \<open>\<^verbatim>\<open>_check_no_such_flags\<close>.\<close>

fun check_no_such_flags :: "pydict \<Rightarrow> flagdef list \<Rightarrow> flag_error option" where
  "check_no_such_flags [] flagdefs = None"
| "check_no_such_flags ((n, v) # flag_vals) flagdefs =
     (if n \<notin> set (map name flagdefs) then Some (NoSuchFlagError n)
      else check_no_such_flags flag_vals flagdefs)"

text \<open>
  \<^verbatim>\<open>_check_flag_choice\<close>: nothing is checked for a value that is false, for a flag
  that allows other values and for a flag without choices.
\<close>

definition choice_matches :: "pyval \<Rightarrow> choice \<Rightarrow> bool" where
  "choice_matches val c =
     ((py_truthy (choice_alias c) \<and> py_eq val (choice_alias c)) \<or> py_eq (choice_value c) val)"

definition check_flag_choice :: "pyval \<Rightarrow> flagdef \<Rightarrow> flag_error option" where
  "check_flag_choice val flag =
     (if \<not> py_truthy val \<or> allow_other flag \<or> choices flag = [] then None
      else if list_ex (choice_matches val) (choices flag) then None
      else Some (InvalidFlagChoice val (name flag)))"

text \<open>\<^verbatim>\<open>_check_flag_type\<close>.\<close>

definition check_flag_type :: "ext \<Rightarrow> pyval \<Rightarrow> flagdef \<Rightarrow> flag_error option" where
  "check_flag_type E val flag =
     (if type' flag = Some ''existing-path'' \<and> py_truthy val then
        (case path_exists E val of
           Inl e \<Rightarrow> Some (Uncaught e)
         | Inr True \<Rightarrow> None
         | Inr False \<Rightarrow> Some (InvalidFlagValue val (name flag) (str_of E val @ '' does not exist'')))
      else None)"

text \<open>\<^verbatim>\<open>_check_flag_range\<close>; a comparison that raises is not caught.\<close>

definition check_flag_range :: "ext \<Rightarrow> pyval \<Rightarrow> flagdef \<Rightarrow> flag_error option" where
  "check_flag_range E val flag =
     (if val = PNone then None
      else
        (case (if min' flag \<noteq> PNone then py_lt val (min' flag) else Inr False) of
           Inl e \<Rightarrow> Some (Uncaught e)
         | Inr True \<Rightarrow>
             Some (InvalidFlagValue val (name flag)
                     (''out of range (less than min '' @ str_of E (min' flag) @ '')''))
         | Inr False \<Rightarrow>
             (case (if max' flag \<noteq> PNone then py_lt (max' flag) val else Inr False) of
                Inl e \<Rightarrow> Some (Uncaught e)
              | Inr True \<Rightarrow>
                  Some (InvalidFlagValue val (name flag)
                          (''out of range (greater than max '' @ str_of E (max' flag) @ '')''))
              | Inr False \<Rightarrow> None)))"

text \<open>\<^verbatim>\<open>_check_flag_val_\<close>.\<close>

definition check_flag_val' :: "ext \<Rightarrow> pyval \<Rightarrow> flagdef \<Rightarrow> flag_error option" where
  "check_flag_val' E val fd =
     (if is_flag_function E val then None
      else
        (case check_flag_choice val fd of
           Some e \<Rightarrow> Some e
         | None \<Rightarrow>
             (case check_flag_type E val fd of
                Some e \<Rightarrow> Some e
              | None \<Rightarrow> check_flag_range E val fd)))"

text \<open>The first raise of a loop over checks.\<close>

fun first_error :: "flag_error option list \<Rightarrow> flag_error option" where
  "first_error [] = None"
| "first_error (x # xs) = (case x of Some e \<Rightarrow> Some e | None \<Rightarrow> first_error xs)"

text \<open>\<^verbatim>\<open>_check_splittable_flag_val\<close>.\<close>

definition check_splittable_flag_val :: "ext \<Rightarrow> pyval \<Rightarrow> flagdef \<Rightarrow> flag_error option" where
  "check_splittable_flag_val E val fd =
     (let encoded = ensure_encoded_flag_val E val;
          split_val = map (decode_flag_val E) (split_encoded_flag_val E encoded (arg_split fd))
      in first_error (map (\<lambda>x. check_flag_val' E x fd) split_val))"

text \<open>\<^verbatim>\<open>_check_flag_val\<close>.\<close>

fun check_flag_val :: "ext \<Rightarrow> pyval \<Rightarrow> flagdef \<Rightarrow> flag_error option"
  and check_flag_val_list :: "ext \<Rightarrow> pyval list \<Rightarrow> flagdef \<Rightarrow> flag_error option" where
  "check_flag_val E val fd =
     (case val of
        PList xs \<Rightarrow> check_flag_val_list E xs fd
      | _ \<Rightarrow>
          if py_truthy (arg_split fd) \<and> val \<noteq> PNone then check_splittable_flag_val E val fd
          else check_flag_val' E val fd)"
| "check_flag_val_list E [] fd = None"
| "check_flag_val_list E (x # xs) fd =
     (case check_flag_val E x fd of Some e \<Rightarrow> Some e | None \<Rightarrow> check_flag_val_list E xs fd)"

text \<open>\<^verbatim>\<open>_check_flag_vals\<close>.\<close>

definition check_flag_vals :: "ext \<Rightarrow> pydict \<Rightarrow> flagdef list \<Rightarrow> flag_error option" where
  "check_flag_vals E vals flagdefs =
     first_error (map (\<lambda>flag. check_flag_val E (dict_get_none vals (name flag)) flag) flagdefs)"

text \<open>\<^verbatim>\<open>_flag_missing\<close>, \<^verbatim>\<open>_missing_flags\<close> and \<^verbatim>\<open>_check_required_flags\<close>.\<close>

definition flag_missing :: "pyval \<Rightarrow> bool" where
  "flag_missing val = (val = PNone \<or> py_eq val (PStr []))"

definition missing_flags :: "pydict \<Rightarrow> flagdef list \<Rightarrow> flagdef list" where
  "missing_flags vals flagdefs =
     filter (\<lambda>flag. required flag \<and> flag_missing (dict_get_none vals (name flag))) flagdefs"

definition check_required_flags :: "pydict \<Rightarrow> flagdef list \<Rightarrow> flag_error option" where
  "check_required_flags vals flagdefs =
     (let missing = missing_flags vals flagdefs in
      if missing \<noteq> [] then Some (MissingRequiredFlags missing) else None)"

subsection \<open>Choice values\<close>

text \<open>\<^verbatim>\<open>_apply_choice_flags\<close>.\<close>

fun apply_choice_flags :: "pydict \<Rightarrow> pydict \<Rightarrow> pydict \<Rightarrow> pydict" where
  "apply_choice_flags [] user_vals target_vals = target_vals"
| "apply_choice_flags ((flag_name, flag_val) # choice_flags) user_vals target_vals =
     apply_choice_flags choice_flags user_vals
       (if dict_get_none user_vals flag_name = PNone
        then dict_set target_vals flag_name flag_val else target_vals)"

text \<open>
  The loop over the choices of one flag in \<^verbatim>\<open>_apply_choice_vals\<close>; \<open>flag_val\<close> is
  read once, before the loop. \<^verbatim>\<open>choice.alias or choice.value\<close> is the alias when that
  is true, else the value.
\<close>

definition alias_or_value :: "choice \<Rightarrow> pyval" where
  "alias_or_value c = (if py_truthy (choice_alias c) then choice_alias c else choice_value c)"

fun apply_choices :: "choice list \<Rightarrow> string \<Rightarrow> pyval \<Rightarrow> pydict \<Rightarrow> pydict \<Rightarrow> pydict" where
  "apply_choices [] n flag_val user_vals target_vals = target_vals"
| "apply_choices (c # cs) n flag_val user_vals target_vals =
     (if \<not> py_eq (alias_or_value c) flag_val
      then apply_choices cs n flag_val user_vals target_vals
      else
        (let t1 = (if py_truthy (choice_alias c)
                   then dict_set target_vals n (choice_value c) else target_vals);
             t2 = (if flags c \<noteq> []
                   then apply_choice_flags (flags c) user_vals t1 else t1)
         in apply_choices cs n flag_val user_vals t2))"

text \<open>\<^verbatim>\<open>_apply_choice_vals\<close>.\<close>

fun apply_choice_vals :: "flagdef list \<Rightarrow> pydict \<Rightarrow> pydict \<Rightarrow> pydict" where
  "apply_choice_vals [] user_vals target_vals = target_vals"
| "apply_choice_vals (fd # fds) user_vals target_vals =
     apply_choice_vals fds user_vals
       (if choices fd = [] then target_vals
        else if dict_get_none target_vals (name fd) = PNone then target_vals
        else apply_choices (choices fd) (name fd) (dict_get_none target_vals (name fd))
               user_vals target_vals)"

subsection \<open>The resolution\<close>

text \<open>
  The first three steps of \<^verbatim>\<open>flag_vals_for_opdef\<close>: the copy of the user values,
  the alias normalization, the defaults and the coercion.
\<close>

definition coerced_flag_vals ::
  "ext \<Rightarrow> flagdef list \<Rightarrow> pydict \<Rightarrow> bool \<Rightarrow> flag_error + pydict" where
  "coerced_flag_vals E flagdefs user_flag_vals force =
     (case normalize_flag_aliases flagdefs (dict_of user_flag_vals) force of
        Inl e \<Rightarrow> Inl e
      | Inr flag_vals \<Rightarrow>
          apply_coerce_flag_vals E flagdefs force (apply_default_flag_vals flagdefs flag_vals))"

text \<open>
  \<^verbatim>\<open>flag_vals_for_opdef\<close>, for the flag definitions of the operation and the user
  values as a dict.
\<close>

definition flag_vals_for_opdef ::
  "ext \<Rightarrow> flagdef list \<Rightarrow> pydict \<Rightarrow> bool \<Rightarrow> flag_error + pydict" where
  "flag_vals_for_opdef E flagdefs user_flag_vals force =
     (case coerced_flag_vals E flagdefs user_flag_vals force of
        Inl e \<Rightarrow> Inl e
      | Inr flag_vals \<Rightarrow>
          (case (if \<not> force
                 then first_error
                        [check_no_such_flags flag_vals flagdefs,
                         check_flag_vals E flag_vals flagdefs,
                         check_required_flags flag_vals flagdefs]
                 else None) of
             Some e \<Rightarrow> Inl e
           | None \<Rightarrow> Inr (apply_choice_vals flagdefs (dict_of user_flag_vals) flag_vals)))"

text \<open>
  A stand-in for what the module imports, to run the model on inputs that do not depend
  on it: no value is a flag function, a value is one part, numbers are read from no
  string, paths stay as they are and exist. The examples that use it have flags without
  a type and without \<^verbatim>\<open>arg_split\<close>, and values that are plain words, so that of
  the imported functions only \<^verbatim>\<open>flag_util.is_flag_function\<close> is reached, on values
  that are no flag functions.
\<close>

definition plain_ext :: ext where
  "plain_ext =
     \<lparr>is_flag_function = (\<lambda>v. False),
      split_encoded_flag_val = (\<lambda>s sep. [s]),
      join_splittable_flag_vals = (\<lambda>vs sep. PList vs),
      encode_flag_val = (\<lambda>v. []),
      decode_flag_val = PStr,
      str_of = (\<lambda>v. case v of PStr s \<Rightarrow> s | _ \<Rightarrow> []),
      int_of_str = (\<lambda>s. None),
      float_of_str = (\<lambda>s. None),
      float_of_int = (\<lambda>i. Some (Fin (of_int i))),
      expanduser = (\<lambda>s. s),
      isabs = (\<lambda>s. True),
      abspath = (\<lambda>s. s),
      path_exists = (\<lambda>v. Inr True)\<rparr>"

subsection \<open>Notions for the claims on coercion\<close>

text \<open>A float that has a fractional part: it is finite and not a whole number.\<close>

definition has_fraction :: "pyfloat \<Rightarrow> bool" where
  "has_fraction f = (case f of Fin r \<Rightarrow> r \<noteq> of_int \<lfloor>r\<rfloor> | _ \<Rightarrow> False)"

text \<open>A flag definition with a name and a type and nothing else.\<close>

definition typed_flag :: "string \<Rightarrow> string option \<Rightarrow> flagdef" where
  "typed_flag n t =
     \<lparr>name = n, alias' = None, type' = t, default' = PNone, required = False, min' = PNone,
      max' = PNone, choices = [], allow_other = False, arg_split = PNone\<rparr>"

text \<open>
  Two flags for the examples: \<^verbatim>\<open>model\<close>, with the default \<^verbatim>\<open>cnn\<close> and the one
  choice \<^verbatim>\<open>cnn\<close> that has the given alias and implies the given value of \<^verbatim>\<open>data\<close>;
  and \<^verbatim>\<open>data\<close>, required, with the given alias and the default \<^verbatim>\<open>mnist\<close>.
\<close>

definition model_flag :: "pyval \<Rightarrow> pyval \<Rightarrow> flagdef" where
  "model_flag al implied =
     (typed_flag ''model'' None)
       \<lparr>default' := PStr ''cnn'',
        choices := [\<lparr>choice_value = PStr ''cnn'', choice_alias = al,
                     flags = [(''data'', implied)]\<rparr>]\<rparr>"

definition data_flag :: "string option \<Rightarrow> flagdef" where
  "data_flag al =
     (typed_flag ''data'' None)\<lparr>alias' := al, default' := PStr ''mnist'', required := True\<rparr>"

text \<open>An exception that is \<open>MissingRequiredFlags\<close>.\<close>

fun is_missing_error :: "flag_error \<Rightarrow> bool" where
  "is_missing_error (MissingRequiredFlags m) = True"
| "is_missing_error e = False"

section \<open>Properties\<close>

subsection \<open>Template selection\<close>

text \<open>
  C4. The template is selected by strict priority: an explicit \<^verbatim>\<open>exec\<close> wins over
  \<^verbatim>\<open>main\<close>, which wins over \<^verbatim>\<open>steps\<close>; a definition with none of the three fails
  with \<open>InvalidOpDef\<close> (the function has no force parameter, so this holds in every
  mode); run attributes are returned exactly in the steps case, and they are the step
  list under the key \<^verbatim>\<open>steps\<close>.
\<close>

theorem exec_template_priority:
  "(str_truthy (exec' opdef) \<longrightarrow>
      (\<exists>w. opdef_exec_and_run_attrs opdef = Inr (the (exec' opdef), None, w)))
   \<and> (\<not> str_truthy (exec' opdef) \<and> str_truthy (main opdef) \<longrightarrow>
      (\<exists>w. opdef_exec_and_run_attrs opdef = Inr (MAIN_EXEC, None, w)))
   \<and> (\<not> str_truthy (exec' opdef) \<and> \<not> str_truthy (main opdef) \<and> py_truthy (steps opdef) \<longrightarrow>
      opdef_exec_and_run_attrs opdef =
        Inr (STEPS_EXEC, Some [(''steps'', steps opdef)], []))
   \<and> (\<not> str_truthy (exec' opdef) \<and> \<not> str_truthy (main opdef) \<and> \<not> py_truthy (steps opdef) \<longrightarrow>
      opdef_exec_and_run_attrs opdef =
        Inl (InvalidOpDef ''must define either exec, main, or steps''))
   \<and> (\<forall>t a w. opdef_exec_and_run_attrs opdef = Inr (t, a, w) \<longrightarrow>
        (a \<noteq> None) =
        (\<not> str_truthy (exec' opdef) \<and> \<not> str_truthy (main opdef) \<and> py_truthy (steps opdef)))"
  by (auto simp: opdef_exec_and_run_attrs_def run_attrs_for_steps_def)

theorem exec_template_priority_witness:
  "opdef_exec_and_run_attrs
     \<lparr>exec' = Some ''python train.py'', main = Some ''train'', steps = PList [PStr ''prepare'']\<rparr>
     = Inr (''python train.py'', None,
            [''operation 'exec' and 'main' both specified, ignoring '' @ quoted ''main'',
             ''operation 'exec' and 'steps' both specified, ignoring '' @ quoted ''steps''])
   \<and> opdef_exec_and_run_attrs
     \<lparr>exec' = None, main = Some ''train'', steps = PList [PStr ''prepare'']\<rparr>
     = Inr (MAIN_EXEC, None,
            [''operation 'main' and 'steps' both specified, ignoring '' @ quoted ''steps''])
   \<and> opdef_exec_and_run_attrs
     \<lparr>exec' = None, main = Some [], steps = PList [PStr ''prepare'']\<rparr>
     = Inr (STEPS_EXEC, Some [(''steps'', PList [PStr ''prepare''])], [])
   \<and> opdef_exec_and_run_attrs \<lparr>exec' = None, main = None, steps = PNone\<rparr>
     = Inl (InvalidOpDef ''must define either exec, main, or steps'')"
  using exec_template_priority
    [of "\<lparr>exec' = Some ''python train.py'', main = Some ''train'', steps = PList [PStr ''prepare'']\<rparr>"]
    exec_template_priority
    [of "\<lparr>exec' = None, main = Some ''train'', steps = PList [PStr ''prepare'']\<rparr>"]
    exec_template_priority
    [of "\<lparr>exec' = None, main = Some [], steps = PList [PStr ''prepare'']\<rparr>"]
    exec_template_priority [of "\<lparr>exec' = None, main = None, steps = PNone\<rparr>"]
  by (simp add: opdef_exec_and_run_attrs_def)

subsection \<open>Template expansion\<close>

text \<open>
  The scenario of the specification: the explicit template with both placeholders and
  the main arguments \<^verbatim>\<open>train.py\<close>.
\<close>

lemma expand_template_scenario:
  "apply_flag_args_marker
     (apply_main_args [''train.py'']
        [''python'', ''-run'', ''${main_args}'', ''--'', ''${flag_args}''])
   = [''python'', ''-run'', ''train.py'', ''--'', ''__flag_args__'']"
  by (simp add: apply_main_args_def apply_flag_args_marker_def)

text \<open>
  C8. After a splice the index is advanced by the number of spliced tokens and then by
  one more, so the scan does not resume at the token after the spliced ones but one
  token later: of two placeholders in a row only the first is replaced.
\<close>

theorem apply_main_args_skips_token_after_splice:
  "apply_main_args [''train.py''] [''${main_args}'', ''${main_args}'']
     = [''train.py'', ''${main_args}'']"
  by (simp add: apply_main_args_def)

subsection \<open>Process supervision\<close>










subsection \<open>Life cycle of a run output\<close>

lemma close_resets:
  "close_output acquired ro = (None, ro') \<Longrightarrow> assert_closed ro' = None"
  by (auto simp: close_output_def assert_closed_def Let_def split: if_splits option.splits)

text \<open>
  C5, as the code has it. \<^verbatim>\<open>open\<close> raises \<^verbatim>\<open>already open\<close> while the object is
  open and leaves it as it is; it raises when the standard output of the process is not
  a pipe; \<^verbatim>\<open>wait\<close> and \<^verbatim>\<open>close\<close> raise \<^verbatim>\<open>not open\<close> on an object that is not
  open, a new one included. A \<^verbatim>\<open>close\<close> that succeeds puts every attribute back to
  its first value, so the object can be opened again: it is closed, open, closed, and
  so on, not single-use.
\<close>

theorem run_output_life_cycle:
  "(is_open ro \<longrightarrow>
      open_output sys_out sys_err p ro = (Some (RuntimeError ''already open''), ro))
   \<and> (stdout p = None \<longrightarrow>
        fst (open_output sys_out sys_err p ro) \<noteq> None
        \<and> snd (open_output sys_out sys_err p ro) = ro)
   \<and> \<not> is_open (new_run_output q cb)
   \<and> (\<not> is_open ro \<longrightarrow>
        wait clk sched ro = Some (Some (RuntimeError ''not open''), ro)
        \<and> close_output True ro = (Some (RuntimeError ''not open''), ro))
   \<and> (\<forall>ro'. close_output acquired ro = (None, ro') \<and> stdout p \<noteq> None \<longrightarrow>
        \<not> is_open ro'
        \<and> fst (open_output sys_out sys_err p ro') = None
        \<and> is_open (snd (open_output sys_out sys_err p ro')))"
proof (intro conjI impI allI)
  assume "is_open ro"
  then show "open_output sys_out sys_err p ro = (Some (RuntimeError ''already open''), ro)"
    by (simp add: open_output_def assert_closed_def)
next
  assume "stdout p = None"
  then show "fst (open_output sys_out sys_err p ro) \<noteq> None"
    by (simp add: open_output_def split: option.splits)
next
  assume "stdout p = None"
  then show "snd (open_output sys_out sys_err p ro) = ro"
    by (simp add: open_output_def split: option.splits)
next
  show "\<not> is_open (new_run_output q cb)"
    by (simp add: new_run_output_def)
next
  assume "\<not> is_open ro"
  then show "wait clk sched ro = Some (Some (RuntimeError ''not open''), ro)"
    by (simp add: wait_def assert_open_def)
next
  assume "\<not> is_open ro"
  then show "close_output True ro = (Some (RuntimeError ''not open''), ro)"
    by (simp add: close_output_def assert_open_def)
next
  fix ro'
  assume a: "close_output acquired ro = (None, ro') \<and> stdout p \<noteq> None"
  then show "\<not> is_open ro'"
    by (auto simp: close_output_def Let_def split: if_splits option.splits)
next
  fix ro'
  assume a: "close_output acquired ro = (None, ro') \<and> stdout p \<noteq> None"
  then show "fst (open_output sys_out sys_err p ro') = None"
    by (auto simp: open_output_def close_resets Let_def split: option.splits)
next
  fix ro'
  assume a: "close_output acquired ro = (None, ro') \<and> stdout p \<noteq> None"
  then show "is_open (snd (open_output sys_out sys_err p ro'))"
    by (auto simp: open_output_def close_resets Let_def split: option.splits)
qed

theorem run_output_life_cycle_witness:
  "open_output True True \<lparr>stdout = Some \<lparr>chunks = [], closes = True\<rparr>, stderr = None\<rparr>
     (snd (open_output True True
             \<lparr>stdout = Some \<lparr>chunks = [], closes = True\<rparr>, stderr = None\<rparr>
             (new_run_output False None)))
   = (Some (RuntimeError ''already open''),
      snd (open_output True True
             \<lparr>stdout = Some \<lparr>chunks = [], closes = True\<rparr>, stderr = None\<rparr>
             (new_run_output False None)))
   \<and> fst (open_output True True \<lparr>stdout = None, stderr = None\<rparr> (new_run_output False None))
       \<noteq> None
   \<and> wait (\<lambda>n. n) [] (new_run_output False None)
       = Some (Some (RuntimeError ''not open''), new_run_output False None)
   \<and> close_output True (new_run_output False None)
       = (Some (RuntimeError ''not open''), new_run_output False None)"
  using run_output_life_cycle
    [of "snd (open_output True True
                \<lparr>stdout = Some \<lparr>chunks = [], closes = True\<rparr>, stderr = None\<rparr>
                (new_run_output False None))"
        True True "\<lparr>stdout = Some \<lparr>chunks = [], closes = True\<rparr>, stderr = None\<rparr>"
        False None "\<lambda>n. n" "[]" True]
    run_output_life_cycle
    [of "new_run_output False None" True True "\<lparr>stdout = None, stderr = None\<rparr>"
        False None "\<lambda>n. n" "[]" True]
  by (simp add: open_output_def new_run_output_def assert_closed_def start_tee_def Let_def)

text \<open>
  The claim as stated fails: on a new object the calls open, wait, close and open again
  all succeed, so the same object is opened twice.
\<close>

theorem run_output_opened_twice:
  "map_option fst
     (do_calls (\<lambda>n. n)
        [Open True True \<lparr>stdout = Some \<lparr>chunks = [[104, 105, 10]], closes = True\<rparr>, stderr = None\<rparr>,
         Wait [],
         Close True,
         Open True True \<lparr>stdout = Some \<lparr>chunks = [[104, 105, 10]], closes = True\<rparr>, stderr = None\<rparr>]
        (new_run_output False None))
   = Some [None, None, None, None]"
  by (simp add: do_call_def open_output_def new_run_output_def assert_closed_def
      start_tee_def wait_def assert_open_def join_def steps_left_def thread_step_def
      tee_iteration_def tee_eof_def output_eol_def struct_pack_QB_def is_alive_def
      close_output_def close_file_def Let_def)

subsection \<open>Index of the captured output\<close>

lemma unat_byte: "unat (of_nat n :: byte) = n mod 256"
  by (simp add: unat_of_nat)

lemma digit_step: "(m::nat) mod (256 * b) = 256 * (m div 256 mod b) + m mod 256"
  by (simp add: mod_mult2_eq add.commute)

text \<open>The eight bytes of a record are its time stamp, most significant byte first.\<close>

lemma be_decode:
  "be_value (take 8 (index_entry ms ty)) = ms mod 2 ^ 64"
proof -
  have "ms mod 2 ^ 64 = ms mod (256 * (256 * (256 * (256 * (256 * (256 * (256 * 256)))))))"
    by simp
  also have "\<dots> = 72057594037927936 * (ms div 72057594037927936 mod 256) +
     281474976710656 * (ms div 281474976710656 mod 256) +
     1099511627776 * (ms div 1099511627776 mod 256) +
     4294967296 * (ms div 4294967296 mod 256) +
     16777216 * (ms div 16777216 mod 256) +
     65536 * (ms div 65536 mod 256) +
     ms div 256 mod 256 * 256 +
     ms mod 256"
    by (simp only: digit_step div_mult2_eq[symmetric]) (simp add: div_mult2_eq)
  finally show ?thesis
    by (simp add: index_entry_def be_value_def unat_byte)
qed

lemma index_records_append:
  "index_records clk n (a @ b) = index_records clk n a @ index_records clk (n + length a) b"
  by (induction a arbitrary: n) auto

lemma length_index_entry: "length (index_entry ms ty) = 9"
  by (simp add: index_entry_def)

lemma length_index_records: "length (index_records clk n tys) = 9 * length tys"
  by (induction tys arbitrary: n) (auto simp: length_index_entry)

lemma output_eol_ok:
  assumes "\<forall>n. clk n < 2 ^ 64" "ty < 256" "index ro = Some OpenFile"
  shows "\<exists>ro'. output_eol clk l ty ro = Inr ro'
           \<and> index_file ro' = index_file ro @ index_entry (clk (clock_reads ro)) ty
           \<and> clock_reads ro' = Suc (clock_reads ro)
           \<and> index ro' = index ro \<and> output' ro' = output' ro
           \<and> out_tee ro' = out_tee ro \<and> err_tee ro' = err_tee ro"
  using assms
  by (cases "output_cb ro") (auto simp: output_eol_def struct_pack_QB_def Let_def)

lemma count_lf_Cons: "count_lf (b # bs) = (if b = 10 then Suc (count_lf bs) else count_lf bs)"
  by (simp add: count_lf_def)

lemma count_lf_Nil: "count_lf [] = 0"
  by (simp add: count_lf_def)

lemma count_lf_append: "count_lf (a @ b) = count_lf a + count_lf b"
  by (simp add: count_lf_def)

lemma scan_line_append: "scan_line pending (a @ b) = scan_line (scan_line pending a) b"
  by (induction a arbitrary: pending) auto

lemma scan_buf_ok:
  assumes "\<forall>n. clk n < 2 ^ 64" "ty < 256" "index ro = Some OpenFile"
  shows "\<exists>ro'. scan_buf clk ty buf pending ro = Inr (scan_line pending buf, ro')
           \<and> index_file ro' = index_file ro
                 @ index_records clk (clock_reads ro) (replicate (count_lf buf) ty)
           \<and> clock_reads ro' = clock_reads ro + count_lf buf
           \<and> index ro' = index ro \<and> output' ro' = output' ro
           \<and> out_tee ro' = out_tee ro \<and> err_tee ro' = err_tee ro"
  using assms(3)
proof (induction buf arbitrary: pending ro)
  case Nil
  then show ?case by (simp add: count_lf_Nil)
next
  case (Cons b bs)
  show ?case
  proof (cases "b = 10")
    case True
    from output_eol_ok[OF assms(1) assms(2) Cons.prems, of "pending @ [b]"] obtain ro1 where
      e: "output_eol clk (pending @ [b]) ty ro = Inr ro1"
      and f: "index_file ro1 = index_file ro @ index_entry (clk (clock_reads ro)) ty"
        "clock_reads ro1 = Suc (clock_reads ro)" "index ro1 = index ro"
        "output' ro1 = output' ro" "out_tee ro1 = out_tee ro" "err_tee ro1 = err_tee ro"
      by blast
    have "index ro1 = Some OpenFile" using f Cons.prems by simp
    from Cons.IH[OF this, of "[]"] obtain ro' where
      "scan_buf clk ty bs [] ro1 = Inr (scan_line [] bs, ro')"
      "index_file ro' = index_file ro1 @ index_records clk (clock_reads ro1) (replicate (count_lf bs) ty)"
      "clock_reads ro' = clock_reads ro1 + count_lf bs" "index ro' = index ro1"
      "output' ro' = output' ro1" "out_tee ro' = out_tee ro1" "err_tee ro' = err_tee ro1"
      by blast
    with True e f show ?thesis by (simp add: count_lf_Cons)
  next
    case False
    from Cons.IH[OF Cons.prems] show ?thesis using False
      by (simp add: count_lf_Cons)
  qed
qed

lemma tee_iteration_ok:
  assumes clk: "\<forall>n. clk n < 2 ^ 64" and ty: "ty < 256"
    and h: "index ro = Some OpenFile" "output' ro = Some OpenFile"
    and ok: "tee_ok ty t"
  shows "\<exists>t' ro' k. tee_iteration clk t ro = (t', ro') \<and> tee_ok ty t'
           \<and> index_file ro' = index_file ro
                 @ index_records clk (clock_reads ro) (replicate k ty)
           \<and> clock_reads ro' = clock_reads ro + k
           \<and> k + count_lf (concat (chunks (input_stream t')))
               = count_lf (concat (chunks (input_stream t)))
           \<and> index ro' = index ro \<and> output' ro' = output' ro
           \<and> out_tee ro' = out_tee ro \<and> err_tee ro' = err_tee ro
           \<and> (status t' = Finished
                \<or> length (chunks (input_stream t')) < length (chunks (input_stream t)))"
proof (cases "status t = Running")
  case False
  with ok have "status t = Finished" "chunks (input_stream t) = []"
    by (auto simp: tee_ok_def)
  then show ?thesis using ok
    by (intro exI[of _ t] exI[of _ ro] exI[of _ 0]) (simp add: tee_iteration_def)
next
  case True
  show ?thesis
  proof (cases "chunks (input_stream t)")
    case Nil
    with ok have "line t = []" "closes (input_stream t)" by (auto simp: tee_ok_def)
    with Nil True ok show ?thesis
      by (intro exI[of _ "t\<lparr>status := Finished\<rparr>"] exI[of _ ro] exI[of _ 0])
         (simp add: tee_iteration_def tee_eof_def tee_ok_def)
  next
    case (Cons buf rest)
    with ok have ne: "buf \<noteq> []" by (auto simp: tee_ok_def)
    let ?t1 = "t\<lparr>input_stream := (input_stream t)\<lparr>chunks := rest\<rparr>\<rparr>"
    let ?ro1 = "if stream_fileno t
                then ro\<lparr>mirrored := mirrored ro @ [(stream_type t, buf)]\<rparr> else ro"
    let ?ro2 = "?ro1\<lparr>output_file := output_file ?ro1 @ buf\<rparr>"
    have h2: "index ?ro2 = Some OpenFile" using h by simp
    from scan_buf_ok[OF clk ty h2, of buf "line t"] obtain ro' where
      s: "scan_buf clk ty buf (line t) ?ro2 = Inr (scan_line (line t) buf, ro')"
      and f: "index_file ro' = index_file ?ro2
                @ index_records clk (clock_reads ?ro2) (replicate (count_lf buf) ty)"
        "clock_reads ro' = clock_reads ?ro2 + count_lf buf"
        "index ro' = index ?ro2" "output' ro' = output' ?ro2"
        "out_tee ro' = out_tee ?ro2" "err_tee ro' = err_tee ?ro2"
      by blast
    have sty: "stream_type t = ty" using ok by (simp add: tee_ok_def)
    have it: "tee_iteration clk t ro = (?t1\<lparr>line := scan_line (line t) buf\<rparr>, ro')"
      using True Cons ne h s sty
      by (cases "stream_fileno t") (simp_all add: tee_iteration_def Let_def)
    have f': "index_file ro' = index_file ro
                @ index_records clk (clock_reads ro) (replicate (count_lf buf) ty)"
        "clock_reads ro' = clock_reads ro + count_lf buf"
        "index ro' = index ro" "output' ro' = output' ro"
        "out_tee ro' = out_tee ro" "err_tee ro' = err_tee ro"
      using f by (cases "stream_fileno t"; simp)+
    have ok': "tee_ok ty (?t1\<lparr>line := scan_line (line t) buf\<rparr>)"
      using ok True Cons by (auto simp: tee_ok_def scan_line_append)
    show ?thesis
      using it ok' f' Cons
      by (intro exI[of _ "?t1\<lparr>line := scan_line (line t) buf\<rparr>"] exI[of _ ro']
            exI[of _ "count_lf buf"]) (simp add: count_lf_append)
  qed
qed

lemma count_list_replicate: "count_list (replicate k x) y = (if x = y then k else 0)"
  by (induction k) auto

lemma thread_step_inv:
  assumes clk: "\<forall>n. clk n < 2 ^ 64" and inv: "capture_inv clk tys ro"
  shows "\<exists>tys'. capture_inv clk tys' (thread_step clk w ro)
     \<and> keeps_due tys ro tys' (thread_step clk w ro)
     \<and> (w = ErrTee \<longrightarrow> out_tee (thread_step clk w ro) = out_tee ro)
     \<and> (w = OutTee \<longrightarrow> err_tee (thread_step clk w ro) = err_tee ro)
     \<and> (\<not> is_alive (the_tee w (thread_step clk w ro))
         \<or> steps_left (the_tee w (thread_step clk w ro)) < steps_left (the_tee w ro))"
proof -
  from inv have h: "index ro = Some OpenFile" "output' ro = Some OpenFile"
    and idx: "index_file ro = index_records clk 0 tys" "clock_reads ro = length tys"
    by (auto simp: capture_inv_def)
  from inv obtain t0 where t0: "out_tee ro = Some t0" "tee_ok 0 t0"
    by (auto simp: capture_inv_def split: option.splits)
  show ?thesis
  proof (cases w)
    case OutTee
    from tee_iteration_ok[OF clk _ h t0(2)] obtain t' ro' k where
      it: "tee_iteration clk t0 ro = (t', ro')" "tee_ok 0 t'"
        "index_file ro' = index_file ro @ index_records clk (clock_reads ro) (replicate k 0)"
        "clock_reads ro' = clock_reads ro + k"
        "k + count_lf (concat (chunks (input_stream t')))
           = count_lf (concat (chunks (input_stream t0)))"
        "index ro' = index ro" "output' ro' = output' ro"
        "out_tee ro' = out_tee ro" "err_tee ro' = err_tee ro"
        "status t' = Finished
           \<or> length (chunks (input_stream t')) < length (chunks (input_stream t0))"
      by auto
    have st: "thread_step clk w ro = ro'\<lparr>out_tee := Some t'\<rparr>"
      using OutTee t0 it(1) by (simp add: thread_step_def)
    have "capture_inv clk (tys @ replicate k 0) (ro'\<lparr>out_tee := Some t'\<rparr>)"
      using inv it h idx by (simp add: capture_inv_def index_records_append)
    then show ?thesis
      using st it t0 OutTee
      by (intro exI[of _ "tys @ replicate k 0"])
         (auto simp: keeps_due_def lf_due_def the_tee_def is_alive_def steps_left_def count_list_replicate)
  next
    case ErrTee
    show ?thesis
    proof (cases "err_tee ro")
      case None
      then have "thread_step clk w ro = ro" using ErrTee by (simp add: thread_step_def)
      then show ?thesis using inv None ErrTee
        by (intro exI[of _ tys]) (simp add: keeps_due_def the_tee_def is_alive_def)
    next
      case (Some t1)
      with inv have ok1: "tee_ok 1 t1" by (simp add: capture_inv_def)
      from tee_iteration_ok[OF clk _ h ok1] obtain t' ro' k where
        it: "tee_iteration clk t1 ro = (t', ro')" "tee_ok 1 t'"
          "index_file ro' = index_file ro @ index_records clk (clock_reads ro) (replicate k 1)"
          "clock_reads ro' = clock_reads ro + k"
          "k + count_lf (concat (chunks (input_stream t')))
             = count_lf (concat (chunks (input_stream t1)))"
          "index ro' = index ro" "output' ro' = output' ro"
          "out_tee ro' = out_tee ro" "err_tee ro' = err_tee ro"
          "status t' = Finished
             \<or> length (chunks (input_stream t')) < length (chunks (input_stream t1))"
        by auto
      have st: "thread_step clk w ro = ro'\<lparr>err_tee := Some t'\<rparr>"
        using ErrTee Some it(1) by (simp add: thread_step_def)
      have "capture_inv clk (tys @ replicate k 1) (ro'\<lparr>err_tee := Some t'\<rparr>)"
        using inv it h idx t0 by (simp add: capture_inv_def index_records_append)
      then show ?thesis
        using st it t0 Some ErrTee
        by (intro exI[of _ "tys @ replicate k 1"])
           (auto simp: keeps_due_def lf_due_def the_tee_def is_alive_def steps_left_def count_list_replicate)
    qed
  qed
qed

lemma keeps_due_refl: "keeps_due tys ro tys ro"
  by (simp add: keeps_due_def)

lemma keeps_due_trans:
  "keeps_due a ra b rb \<Longrightarrow> keeps_due b rb c rc \<Longrightarrow> keeps_due a ra c rc"
  by (simp add: keeps_due_def)

lemma run_schedule_inv:
  assumes clk: "\<forall>n. clk n < 2 ^ 64" and inv: "capture_inv clk tys ro"
  shows "\<exists>tys'. capture_inv clk tys' (run_schedule clk sched ro)
     \<and> keeps_due tys ro tys' (run_schedule clk sched ro)
     \<and> (set sched \<subseteq> {ErrTee} \<longrightarrow> out_tee (run_schedule clk sched ro) = out_tee ro)
     \<and> (set sched \<subseteq> {OutTee} \<longrightarrow> err_tee (run_schedule clk sched ro) = err_tee ro)"
  using inv
proof (induction sched arbitrary: tys ro)
  case Nil
  then show ?case by (intro exI[of _ tys]) (simp add: keeps_due_refl)
next
  case (Cons w ws)
  from thread_step_inv[OF clk Cons.prems, of w] obtain tys1 where
    a: "capture_inv clk tys1 (thread_step clk w ro)"
    and b: "keeps_due tys ro tys1 (thread_step clk w ro)"
     "w = ErrTee \<longrightarrow> out_tee (thread_step clk w ro) = out_tee ro"
     "w = OutTee \<longrightarrow> err_tee (thread_step clk w ro) = err_tee ro"
    by (elim exE conjE)
  from Cons.IH[OF a] obtain tys' where
    c: "capture_inv clk tys' (run_schedule clk ws (thread_step clk w ro))"
     "keeps_due tys1 (thread_step clk w ro) tys' (run_schedule clk ws (thread_step clk w ro))"
     "set ws \<subseteq> {ErrTee} \<longrightarrow>
        out_tee (run_schedule clk ws (thread_step clk w ro)) = out_tee (thread_step clk w ro)"
     "set ws \<subseteq> {OutTee} \<longrightarrow>
        err_tee (run_schedule clk ws (thread_step clk w ro)) = err_tee (thread_step clk w ro)"
    by (elim exE conjE)
  show ?case
  proof (intro exI[of _ tys'] conjI)
    show "capture_inv clk tys' (run_schedule clk (w # ws) ro)" using c(1) by simp
    show "keeps_due tys ro tys' (run_schedule clk (w # ws) ro)"
      using keeps_due_trans[OF b(1) c(2)] by simp
    show "set (w # ws) \<subseteq> {ErrTee} \<longrightarrow> out_tee (run_schedule clk (w # ws) ro) = out_tee ro"
      using b(2) c(3) by auto
    show "set (w # ws) \<subseteq> {OutTee} \<longrightarrow> err_tee (run_schedule clk (w # ws) ro) = err_tee ro"
      using b(3) c(4) by auto
  qed
qed

lemma not_alive_step:
  "\<not> is_alive (the_tee w ro) \<Longrightarrow> \<not> is_alive (the_tee w (thread_step clk w ro))"
  by (cases w; cases "out_tee ro"; cases "err_tee ro")
     (simp_all add: thread_step_def the_tee_def is_alive_def tee_iteration_def)

lemma alive_steps_left: "is_alive t \<Longrightarrow> 0 < steps_left t"
  by (cases t) (simp_all add: is_alive_def steps_left_def)

lemma run_replicate_finishes:
  assumes clk: "\<forall>n. clk n < 2 ^ 64" and inv: "capture_inv clk tys ro"
    and n: "\<not> is_alive (the_tee w ro) \<or> steps_left (the_tee w ro) \<le> n"
  shows "\<not> is_alive (the_tee w (run_schedule clk (replicate n w) ro))"
  using inv n
proof (induction n arbitrary: tys ro)
  case 0
  then show ?case using alive_steps_left[of "the_tee w ro"] by fastforce
next
  case (Suc n)
  from thread_step_inv[OF clk Suc.prems(1), of w] obtain tys1 where
    a: "capture_inv clk tys1 (thread_step clk w ro)"
    and b: "\<not> is_alive (the_tee w (thread_step clk w ro))
         \<or> steps_left (the_tee w (thread_step clk w ro)) < steps_left (the_tee w ro)"
    by (elim exE conjE)
  have "\<not> is_alive (the_tee w (thread_step clk w ro))
         \<or> steps_left (the_tee w (thread_step clk w ro)) \<le> n"
  proof (cases "is_alive (the_tee w ro)")
    case True
    with Suc.prems(2) have "steps_left (the_tee w ro) \<le> Suc n" by simp
    with b show ?thesis by linarith
  next
    case False
    from not_alive_step[OF this] show ?thesis by simp
  qed
  from Suc.IH[OF a this] show ?case by simp
qed

lemma join_inv:
  assumes clk: "\<forall>n. clk n < 2 ^ 64" and inv: "capture_inv clk tys ro"
  shows "\<exists>tys'. capture_inv clk tys' (join clk w ro)
     \<and> keeps_due tys ro tys' (join clk w ro)
     \<and> \<not> is_alive (the_tee w (join clk w ro))
     \<and> (w = ErrTee \<longrightarrow> out_tee (join clk w ro) = out_tee ro)"
proof -
  have j: "join clk w ro = run_schedule clk (replicate (steps_left (the_tee w ro)) w) ro"
    by (simp add: join_def the_tee_def)
  from run_schedule_inv[OF clk inv, of "replicate (steps_left (the_tee w ro)) w"]
  obtain tys' where
    a: "capture_inv clk tys' (join clk w ro)" "keeps_due tys ro tys' (join clk w ro)"
    and b: "set (replicate (steps_left (the_tee w ro)) w) \<subseteq> {ErrTee} \<longrightarrow>
             out_tee (join clk w ro) = out_tee ro"
    unfolding j by (elim exE conjE)
  have c: "\<not> is_alive (the_tee w (join clk w ro))"
    unfolding j by (rule run_replicate_finishes[OF clk inv]) simp
  have d: "w = ErrTee \<longrightarrow> out_tee (join clk w ro) = out_tee ro"
    using b by auto
  show ?thesis using a c d by (intro exI[of _ tys']) simp
qed

lemma open_inv:
  assumes "stdout p = Some out" "lf_terminated out"
    and "case stderr p of None \<Rightarrow> True | Some err \<Rightarrow> lf_terminated err"
  shows "fst (open_output so se p (new_run_output q cb)) = None"
    and "capture_inv clk [] (snd (open_output so se p (new_run_output q cb)))"
    and "assert_open (snd (open_output so se p (new_run_output q cb))) = None"
    and "lf_due (out_tee (snd (open_output so se p (new_run_output q cb))))
           = count_lf (concat (chunks out))"
    and "lf_due (err_tee (snd (open_output so se p (new_run_output q cb))))
           = (case stderr p of None \<Rightarrow> 0 | Some err \<Rightarrow> count_lf (concat (chunks err)))"
  using assms
  by (auto simp: open_output_def new_run_output_def assert_closed_def assert_open_def
      capture_inv_def tee_ok_def start_tee_def lf_terminated_def lf_due_def Let_def
      split: option.splits)

lemma output_eol_output_file:
  "output_eol clk l ty ro = Inr ro' \<Longrightarrow> output_file ro' = output_file ro"
  by (auto simp: output_eol_def Let_def split: option.splits if_splits)

lemma scan_buf_output_file:
  "scan_buf clk ty buf pending ro = Inr (l, ro') \<Longrightarrow> output_file ro' = output_file ro"
proof (induction buf arbitrary: pending ro)
  case Nil
  then show ?case by simp
next
  case (Cons b bs)
  show ?case
  proof (cases "b < 9")
    case True
    with Cons.prems have "scan_buf clk ty bs pending ro = Inr (l, ro')" by simp
    from Cons.IH[OF this] show ?thesis .
  next
    case False
    show ?thesis
    proof (cases "b = 10")
      case True
      with Cons.prems False obtain ro1 where
        e: "output_eol clk (pending @ [b]) ty ro = Inr ro1"
        and r: "scan_buf clk ty bs [] ro1 = Inr (l, ro')"
        by (cases "output_eol clk (pending @ [b]) ty ro") auto
      from Cons.IH[OF r] output_eol_output_file[OF e] show ?thesis by simp
    next
      case b: False
      with Cons.prems False have "scan_buf clk ty bs (pending @ [b]) ro = Inr (l, ro')" by simp
      from Cons.IH[OF this] show ?thesis .
    qed
  qed
qed

lemma tee_iteration_exact:
  assumes clk: "\<forall>n. clk n < 2 ^ 64" and ty: "ty < 256"
    and h: "index ro = Some OpenFile" "output' ro = Some OpenFile"
    and ok: "tee_ok ty t"
  shows "\<exists>t' ro'. tee_iteration clk t ro = (t', ro') \<and> tee_ok ty t'
           \<and> index_file ro' = index_file ro
                 @ index_records clk (clock_reads ro)
                     (replicate (count_lf (concat (take 1 (chunks (input_stream t))))) ty)
           \<and> clock_reads ro'
               = clock_reads ro + count_lf (concat (take 1 (chunks (input_stream t))))
           \<and> output_file ro' = output_file ro @ concat (take 1 (chunks (input_stream t)))
           \<and> chunks (input_stream t') = drop 1 (chunks (input_stream t))
           \<and> index ro' = index ro \<and> output' ro' = output' ro
           \<and> out_tee ro' = out_tee ro \<and> err_tee ro' = err_tee ro"
proof (cases "status t = Running")
  case False
  with ok have "status t = Finished" "chunks (input_stream t) = []"
    by (auto simp: tee_ok_def)
  then show ?thesis using ok
    by (intro exI[of _ t] exI[of _ ro]) (simp add: tee_iteration_def count_lf_Nil)
next
  case True
  show ?thesis
  proof (cases "chunks (input_stream t)")
    case Nil
    with ok have "line t = []" "closes (input_stream t)" by (auto simp: tee_ok_def)
    with Nil True ok show ?thesis
      by (intro exI[of _ "t\<lparr>status := Finished\<rparr>"] exI[of _ ro])
         (simp add: tee_iteration_def tee_eof_def tee_ok_def count_lf_Nil)
  next
    case (Cons buf rest)
    with ok have ne: "buf \<noteq> []" by (auto simp: tee_ok_def)
    let ?t1 = "t\<lparr>input_stream := (input_stream t)\<lparr>chunks := rest\<rparr>\<rparr>"
    let ?ro1 = "if stream_fileno t
                then ro\<lparr>mirrored := mirrored ro @ [(stream_type t, buf)]\<rparr> else ro"
    let ?ro2 = "?ro1\<lparr>output_file := output_file ?ro1 @ buf\<rparr>"
    have h2: "index ?ro2 = Some OpenFile" using h by simp
    from scan_buf_ok[OF clk ty h2, of buf "line t"] obtain ro' where
      s: "scan_buf clk ty buf (line t) ?ro2 = Inr (scan_line (line t) buf, ro')"
      and f: "index_file ro' = index_file ?ro2
                @ index_records clk (clock_reads ?ro2) (replicate (count_lf buf) ty)"
        "clock_reads ro' = clock_reads ?ro2 + count_lf buf"
        "index ro' = index ?ro2" "output' ro' = output' ?ro2"
        "out_tee ro' = out_tee ?ro2" "err_tee ro' = err_tee ?ro2"
      by blast
    have g: "output_file ro' = output_file ?ro2" by (rule scan_buf_output_file[OF s])
    have sty: "stream_type t = ty" using ok by (simp add: tee_ok_def)
    have it: "tee_iteration clk t ro = (?t1\<lparr>line := scan_line (line t) buf\<rparr>, ro')"
      using True Cons ne h s sty
      by (cases "stream_fileno t") (simp_all add: tee_iteration_def Let_def)
    have f': "index_file ro' = index_file ro
                @ index_records clk (clock_reads ro) (replicate (count_lf buf) ty)"
        "clock_reads ro' = clock_reads ro + count_lf buf"
        "index ro' = index ro" "output' ro' = output' ro"
        "out_tee ro' = out_tee ro" "err_tee ro' = err_tee ro"
        "output_file ro' = output_file ro @ buf"
      using f g by (cases "stream_fileno t"; simp)+
    have ok': "tee_ok ty (?t1\<lparr>line := scan_line (line t) buf\<rparr>)"
      using ok True Cons by (auto simp: tee_ok_def scan_line_append)
    show ?thesis
      using it ok' f' Cons
      by (intro exI[of _ "?t1\<lparr>line := scan_line (line t) buf\<rparr>"] exI[of _ ro']) simp
  qed
qed

lemma line_tags_Nil: "line_tags [] = []"
  by (simp add: line_tags_def)

lemma line_tags_Cons: "line_tags ((ty, c) # ord) = replicate (count_lf c) ty @ line_tags ord"
  by (simp add: line_tags_def)

lemma line_tags_append: "line_tags (a @ b) = line_tags a @ line_tags b"
  by (simp add: line_tags_def)

text \<open>
  One step of a reader thread takes the next chunk of its stream, if there is one:
  the chunk is appended to the log and one record per line feed of the chunk, tagged
  with the stream, is appended to the index.
\<close>

lemma thread_step_exact:
  assumes clk: "\<forall>n. clk n < 2 ^ 64" and inv: "capture_inv clk tys ro"
  shows "\<exists>ord. capture_inv clk (tys @ line_tags ord) (thread_step clk w ro)
     \<and> output_file (thread_step clk w ro) = output_file ro @ concat (map snd ord)
     \<and> (\<forall>ws. interleave (w # ws) (chunks_left (out_tee ro)) (chunks_left (err_tee ro))
            = ord @ interleave ws (chunks_left (out_tee (thread_step clk w ro)))
                                  (chunks_left (err_tee (thread_step clk w ro))))
     \<and> (err_tee (thread_step clk w ro) = None) = (err_tee ro = None)"
proof -
  from inv have h: "index ro = Some OpenFile" "output' ro = Some OpenFile"
    and idx: "index_file ro = index_records clk 0 tys" "clock_reads ro = length tys"
    by (auto simp: capture_inv_def)
  from inv obtain t0 where t0: "out_tee ro = Some t0" "tee_ok 0 t0"
    by (auto simp: capture_inv_def split: option.splits)
  show ?thesis
  proof (cases w)
    case OutTee
    let ?cs = "chunks (input_stream t0)"
    from tee_iteration_exact[OF clk _ h t0(2)] obtain t' ro' where
      it: "tee_iteration clk t0 ro = (t', ro')" "tee_ok 0 t'"
        "index_file ro' = index_file ro
           @ index_records clk (clock_reads ro) (replicate (count_lf (concat (take 1 ?cs))) 0)"
        "clock_reads ro' = clock_reads ro + count_lf (concat (take 1 ?cs))"
        "output_file ro' = output_file ro @ concat (take 1 ?cs)"
        "chunks (input_stream t') = drop 1 ?cs"
        "index ro' = index ro" "output' ro' = output' ro"
        "out_tee ro' = out_tee ro" "err_tee ro' = err_tee ro"
      by auto
    have st: "thread_step clk w ro = ro'\<lparr>out_tee := Some t'\<rparr>"
      using OutTee t0 it(1) by (simp add: thread_step_def)
    have ci: "capture_inv clk (tys @ replicate (count_lf (concat (take 1 ?cs))) 0)
                (ro'\<lparr>out_tee := Some t'\<rparr>)"
      using inv it h idx by (simp add: capture_inv_def index_records_append)
    show ?thesis
    proof (cases ?cs)
      case Nil
      show ?thesis
        unfolding st
        apply (rule exI[of _ "[]"])
        using ci it t0 Nil OutTee
        apply (simp add: line_tags_Nil chunks_left_def count_lf_Nil)
        done
    next
      case (Cons c rest)
      show ?thesis
        unfolding st
        apply (rule exI[of _ "[(0, c)]"])
        using ci it t0 Cons OutTee
        apply (simp add: line_tags_Cons line_tags_Nil chunks_left_def)
        done
    qed
  next
    case ErrTee
    show ?thesis
    proof (cases "err_tee ro")
      case None
      then have st: "thread_step clk w ro = ro" using ErrTee by (simp add: thread_step_def)
      show ?thesis
        unfolding st
        apply (rule exI[of _ "[]"])
        using inv None ErrTee
        apply (simp add: line_tags_Nil chunks_left_def)
        done
    next
      case (Some t1)
      with inv have ok1: "tee_ok 1 t1" by (simp add: capture_inv_def)
      let ?cs = "chunks (input_stream t1)"
      from tee_iteration_exact[OF clk _ h ok1] obtain t' ro' where
        it: "tee_iteration clk t1 ro = (t', ro')" "tee_ok 1 t'"
          "index_file ro' = index_file ro
             @ index_records clk (clock_reads ro) (replicate (count_lf (concat (take 1 ?cs))) 1)"
          "clock_reads ro' = clock_reads ro + count_lf (concat (take 1 ?cs))"
          "output_file ro' = output_file ro @ concat (take 1 ?cs)"
          "chunks (input_stream t') = drop 1 ?cs"
          "index ro' = index ro" "output' ro' = output' ro"
          "out_tee ro' = out_tee ro" "err_tee ro' = err_tee ro"
        by auto
      have st: "thread_step clk w ro = ro'\<lparr>err_tee := Some t'\<rparr>"
        using ErrTee Some it(1) by (simp add: thread_step_def)
      have ci: "capture_inv clk (tys @ replicate (count_lf (concat (take 1 ?cs))) 1)
                  (ro'\<lparr>err_tee := Some t'\<rparr>)"
        using inv it h idx t0 by (simp add: capture_inv_def index_records_append)
      show ?thesis
      proof (cases ?cs)
        case Nil
        show ?thesis
          unfolding st
          apply (rule exI[of _ "[]"])
          using ci it t0 Some Nil ErrTee
          apply (simp add: line_tags_Nil chunks_left_def count_lf_Nil)
          done
      next
        case (Cons c rest)
        show ?thesis
          unfolding st
          apply (rule exI[of _ "[(1, c)]"])
          using ci it t0 Some Cons ErrTee
          apply (simp add: line_tags_Cons line_tags_Nil chunks_left_def)
          done
      qed
    qed
  qed
qed


lemma run_schedule_exact:
  assumes clk: "\<forall>n. clk n < 2 ^ 64" and inv: "capture_inv clk tys ro"
  shows "\<exists>ord. capture_inv clk (tys @ line_tags ord) (run_schedule clk sched ro)
     \<and> output_file (run_schedule clk sched ro) = output_file ro @ concat (map snd ord)
     \<and> interleave sched (chunks_left (out_tee ro)) (chunks_left (err_tee ro))
            = ord @ interleave [] (chunks_left (out_tee (run_schedule clk sched ro)))
                                  (chunks_left (err_tee (run_schedule clk sched ro)))
     \<and> (err_tee (run_schedule clk sched ro) = None) = (err_tee ro = None)"
  using inv
proof (induction sched arbitrary: tys ro)
  case Nil
  show ?case
    apply (rule exI[of _ "[]"])
    using Nil apply (simp add: line_tags_Nil)
    done
next
  case (Cons w ws)
  let ?ro1 = "thread_step clk w ro"
  from thread_step_exact[OF clk Cons.prems, of w] obtain ord1 where
    a: "capture_inv clk (tys @ line_tags ord1) ?ro1"
       "output_file ?ro1 = output_file ro @ concat (map snd ord1)"
       "\<forall>ws. interleave (w # ws) (chunks_left (out_tee ro)) (chunks_left (err_tee ro))
            = ord1 @ interleave ws (chunks_left (out_tee ?ro1)) (chunks_left (err_tee ?ro1))"
       "(err_tee ?ro1 = None) = (err_tee ro = None)"
    by (elim exE conjE)
  from Cons.IH[OF a(1)] obtain ord2 where
    b: "capture_inv clk ((tys @ line_tags ord1) @ line_tags ord2) (run_schedule clk ws ?ro1)"
       "output_file (run_schedule clk ws ?ro1) = output_file ?ro1 @ concat (map snd ord2)"
       "interleave ws (chunks_left (out_tee ?ro1)) (chunks_left (err_tee ?ro1))
            = ord2 @ interleave [] (chunks_left (out_tee (run_schedule clk ws ?ro1)))
                                   (chunks_left (err_tee (run_schedule clk ws ?ro1)))"
       "(err_tee (run_schedule clk ws ?ro1) = None) = (err_tee ?ro1 = None)"
    by (elim exE conjE)
  have c: "interleave (w # ws) (chunks_left (out_tee ro)) (chunks_left (err_tee ro))
            = ord1 @ interleave ws (chunks_left (out_tee ?ro1)) (chunks_left (err_tee ?ro1))"
    using a(3) by (rule spec)
  show ?case
  proof (intro exI[of _ "ord1 @ ord2"] conjI)
    show "capture_inv clk (tys @ line_tags (ord1 @ ord2)) (run_schedule clk (w # ws) ro)"
      using b(1) by (simp add: line_tags_append)
    show "output_file (run_schedule clk (w # ws) ro)
            = output_file ro @ concat (map snd (ord1 @ ord2))"
      using a(2) b(2) by simp
    show "interleave (w # ws) (chunks_left (out_tee ro)) (chunks_left (err_tee ro))
            = (ord1 @ ord2) @ interleave [] (chunks_left (out_tee (run_schedule clk (w # ws) ro)))
                                  (chunks_left (err_tee (run_schedule clk (w # ws) ro)))"
      unfolding c b(3) by simp
    show "(err_tee (run_schedule clk (w # ws) ro) = None) = (err_tee ro = None)"
      using a(4) b(4) by simp
  qed
qed

lemma interleave_out_only:
  "interleave (replicate n OutTee) outs errs = interleave [] outs errs"
proof (induction n arbitrary: outs)
  case 0
  show ?case by simp
next
  case (Suc n)
  show ?case
  proof (cases outs)
    case Nil
    then show ?thesis using Suc[of "[]"] by simp
  next
    case (Cons c cs)
    then show ?thesis using Suc[of cs] by simp
  qed
qed

lemma interleave_err_only:
  "interleave (replicate n ErrTee) [] errs = interleave [] [] errs"
proof (induction n arbitrary: errs)
  case 0
  show ?case by simp
next
  case (Suc n)
  show ?case
  proof (cases errs)
    case Nil
    then show ?thesis using Suc[of "[]"] by simp
  next
    case (Cons c cs)
    then show ?thesis using Suc[of cs] by simp
  qed
qed

lemma done_no_chunks:
  assumes "capture_inv clk tys ro" "\<not> is_alive (out_tee ro)"
  shows "chunks_left (out_tee ro) = []"
  using assms
  by (auto simp: capture_inv_def is_alive_def chunks_left_def tee_ok_def split: option.splits)

lemma done_no_chunks_err:
  assumes "capture_inv clk tys ro" "\<not> is_alive (err_tee ro)"
  shows "chunks_left (err_tee ro) = []"
  using assms
  by (auto simp: capture_inv_def is_alive_def chunks_left_def tee_ok_def split: option.splits)

text \<open>
  Joining a thread lets it run to its end: it is not alive afterwards, and what it
  still takes is in the order that \<open>interleave\<close> gives for an empty schedule.
\<close>

lemma join_exact:
  assumes clk: "\<forall>n. clk n < 2 ^ 64" and inv: "capture_inv clk tys ro"
  shows "\<exists>ord. capture_inv clk (tys @ line_tags ord) (join clk w ro)
     \<and> output_file (join clk w ro) = output_file ro @ concat (map snd ord)
     \<and> interleave (replicate (steps_left (the_tee w ro)) w)
          (chunks_left (out_tee ro)) (chunks_left (err_tee ro))
            = ord @ interleave [] (chunks_left (out_tee (join clk w ro)))
                                  (chunks_left (err_tee (join clk w ro)))
     \<and> (err_tee (join clk w ro) = None) = (err_tee ro = None)
     \<and> \<not> is_alive (the_tee w (join clk w ro))"
proof -
  have j: "join clk w ro = run_schedule clk (replicate (steps_left (the_tee w ro)) w) ro"
    by (simp add: join_def the_tee_def)
  have c: "\<not> is_alive (the_tee w (join clk w ro))"
    unfolding j by (rule run_replicate_finishes[OF clk inv]) simp
  from run_schedule_exact[OF clk inv, of "replicate (steps_left (the_tee w ro)) w"]
  show ?thesis unfolding j[symmetric] using c by (elim exE conjE) (intro exI conjI)
qed


text \<open>Reading the records back gives the time stamps and the stream types.\<close>

lemma decode_index_entry:
  assumes "ms < 2 ^ 64" "ty < 256"
  shows "decode_index (index_entry ms ty @ rest) = (ms, ty) # decode_index rest"
proof -
  have l: "length (index_entry ms ty) = 9" by (rule length_index_entry)
  have t: "take 8 (index_entry ms ty @ rest) = take 8 (index_entry ms ty)"
    using l by simp
  have n: "(index_entry ms ty @ rest) ! 8 = of_nat ty"
    by (simp add: index_entry_def)
  have d: "drop 9 (index_entry ms ty @ rest) = rest" using l by simp
  have "decode_index (index_entry ms ty @ rest)
      = (be_value (take 8 (index_entry ms ty @ rest)), unat ((index_entry ms ty @ rest) ! 8))
          # decode_index (drop 9 (index_entry ms ty @ rest))"
    using l by (subst decode_index.simps) simp
  also have "\<dots> = (ms mod 2 ^ 64, ty mod 256) # decode_index rest"
    unfolding t n d be_decode unat_byte by (rule refl)
  finally show ?thesis using assms by simp
qed

lemma decode_index_records:
  assumes "\<forall>n. clk n < 2 ^ 64" "\<forall>ty\<in>set tys. ty < 256"
  shows "decode_index (index_records clk n tys) = zip (map clk [n..<n + length tys]) tys"
  using assms(2)
proof (induction tys arbitrary: n)
  case Nil
  show ?case by (subst decode_index.simps) simp
next
  case (Cons ty tys)
  have c: "clk n < 2 ^ 64" using assms(1) by (rule spec)
  have t: "ty < 256" using Cons.prems by simp
  have r: "\<forall>ty\<in>set tys. ty < 256" using Cons.prems by simp
  have "n < n + length (ty # tys)" by simp
  from upt_conv_Cons[OF this]
  have u: "[n..<n + length (ty # tys)] = n # [Suc n..<Suc n + length tys]"
    by simp
  show ?case
    unfolding u index_records.simps decode_index_entry[OF c t] Cons.IH[OF r] by simp
qed

lemma interleave_tags: "fst ` set (interleave sched outs errs) \<subseteq> {0, 1}"
  by (induction sched outs errs rule: interleave.induct) auto

lemma line_tags_set: "set (line_tags ord) \<subseteq> fst ` set ord"
  by (induction ord) (auto simp: line_tags_def)

lemma interleave_line_tags_small: "\<forall>ty\<in>set (line_tags (interleave sched outs errs)). ty < 256"
proof
  fix ty assume a: "ty \<in> set (line_tags (interleave sched outs errs))"
  have "ty \<in> fst ` set (interleave sched outs errs)"
    using a line_tags_set[of "interleave sched outs errs"] by (rule set_mp[rotated])
  then have "ty \<in> {0, 1}"
    using interleave_tags[of sched outs errs] by (rule set_mp[rotated])
  then show "ty < 256" by auto
qed

text \<open>The order is a merge of the two streams.\<close>

lemma interleave_out:
  "map snd (filter (\<lambda>e. fst e = 0) (interleave sched outs errs)) = outs"
  by (induction sched outs errs rule: interleave.induct) (auto simp: filter_map comp_def)

lemma interleave_err:
  "map snd (filter (\<lambda>e. fst e = 1) (interleave sched outs errs)) = errs"
  by (induction sched outs errs rule: interleave.induct) (auto simp: filter_map comp_def)

lemma line_tags_count:
  "count_list (line_tags ord) ty = count_lf (concat (map snd (filter (\<lambda>e. fst e = ty) ord)))"
  by (induction ord)
     (auto simp: line_tags_def count_lf_append count_list_replicate count_lf_Nil)

lemma line_tags_length:
  "fst ` set ord \<subseteq> {0, 1} \<Longrightarrow>
   length (line_tags ord) = count_list (line_tags ord) 0 + count_list (line_tags ord) 1"
  by (induction ord) (auto simp: line_tags_def count_list_replicate)


lemma open_chunks:
  assumes "stdout p = Some out"
  shows "chunks_left (out_tee (snd (open_output so se p (new_run_output q cb)))) = chunks out"
    and "chunks_left (err_tee (snd (open_output so se p (new_run_output q cb))))
           = (case stderr p of None \<Rightarrow> [] | Some err \<Rightarrow> chunks err)"
    and "output_file (snd (open_output so se p (new_run_output q cb))) = []"
  using assms
  by (auto simp: open_output_def new_run_output_def assert_closed_def chunks_left_def
      start_tee_def Let_def split: option.splits)

lemma captured_exact:
  assumes clk: "\<forall>n. clk n < 2 ^ 64"
    and out: "stdout p = Some out" "lf_terminated out"
    and err: "case stderr p of None \<Rightarrow> True | Some err \<Rightarrow> lf_terminated err"
  shows "\<exists>ro'.
      wait clk sched (snd (open_output sys_out sys_err p (new_run_output q cb))) = Some (None, ro')
      \<and> output_file ro'
          = concat (map snd (interleave sched (chunks out)
                      (case stderr p of None \<Rightarrow> [] | Some err \<Rightarrow> chunks err)))
      \<and> index_file ro'
          = index_records clk 0 (line_tags (interleave sched (chunks out)
                      (case stderr p of None \<Rightarrow> [] | Some err \<Rightarrow> chunks err)))"
proof -
  let ?ro1 = "snd (open_output sys_out sys_err p (new_run_output q cb))"
  let ?errs = "case stderr p of None \<Rightarrow> [] | Some err \<Rightarrow> chunks err"
  note o = open_inv[OF out err, where so=sys_out and se=sys_err and q=q and cb=cb]
  note oc = open_chunks[OF out(1), where so=sys_out and se=sys_err and q=q and cb=cb]
  have inv1: "capture_inv clk [] ?ro1" by (rule o(2))
  let ?ro_a = "run_schedule clk sched ?ro1"
  from run_schedule_exact[OF clk inv1, of sched] obtain ord_a where
    a: "capture_inv clk ([] @ line_tags ord_a) ?ro_a"
       "output_file ?ro_a = output_file ?ro1 @ concat (map snd ord_a)"
       "interleave sched (chunks_left (out_tee ?ro1)) (chunks_left (err_tee ?ro1))
          = ord_a @ interleave [] (chunks_left (out_tee ?ro_a)) (chunks_left (err_tee ?ro_a))"
    by (elim exE conjE)
  let ?ro_b = "join clk OutTee ?ro_a"
  from join_exact[OF clk a(1), of OutTee] obtain ord_b where
    b: "capture_inv clk (([] @ line_tags ord_a) @ line_tags ord_b) ?ro_b"
       "output_file ?ro_b = output_file ?ro_a @ concat (map snd ord_b)"
       "interleave (replicate (steps_left (the_tee OutTee ?ro_a)) OutTee)
          (chunks_left (out_tee ?ro_a)) (chunks_left (err_tee ?ro_a))
            = ord_b @ interleave [] (chunks_left (out_tee ?ro_b)) (chunks_left (err_tee ?ro_b))"
       "\<not> is_alive (the_tee OutTee ?ro_b)"
    by (elim exE conjE)
  have out_b: "\<not> is_alive (out_tee ?ro_b)" using b(4) by (simp add: the_tee_def)
  have ob: "chunks_left (out_tee ?ro_b) = []" by (rule done_no_chunks[OF b(1) out_b])
  have e1: "interleave sched (chunks out) ?errs
              = ord_a @ ord_b @ interleave [] [] (chunks_left (err_tee ?ro_b))"
    using a(3) b(3) unfolding oc(1) oc(2) interleave_out_only ob by simp
  have f1: "output_file ?ro_b = concat (map snd (ord_a @ ord_b))"
    using a(2) b(2) oc(3) by simp
  have i1: "capture_inv clk (line_tags (ord_a @ ord_b)) ?ro_b"
    using b(1) by (simp add: line_tags_append)
  show ?thesis
  proof (cases "err_tee ?ro_b")
    case None
    then have w: "wait clk sched ?ro1 = Some (None, ?ro_b)"
      using o(3) out_b by (simp add: wait_def Let_def)
    have "chunks_left (err_tee ?ro_b) = []" using None by (simp add: chunks_left_def)
    with e1 have e: "interleave sched (chunks out) ?errs = ord_a @ ord_b" by simp
    have i: "index_file ?ro_b = index_records clk 0 (line_tags (ord_a @ ord_b))"
      using i1 by (simp add: capture_inv_def)
    show ?thesis
      apply (rule exI[of _ ?ro_b])
      unfolding e
      using w f1 i apply simp
      done
  next
    case (Some t)
    let ?ro_c = "join clk ErrTee ?ro_b"
    from join_exact[OF clk i1, of ErrTee] obtain ord_c where
      c: "capture_inv clk (line_tags (ord_a @ ord_b) @ line_tags ord_c) ?ro_c"
         "output_file ?ro_c = output_file ?ro_b @ concat (map snd ord_c)"
         "interleave (replicate (steps_left (the_tee ErrTee ?ro_b)) ErrTee)
            (chunks_left (out_tee ?ro_b)) (chunks_left (err_tee ?ro_b))
              = ord_c @ interleave [] (chunks_left (out_tee ?ro_c)) (chunks_left (err_tee ?ro_c))"
         "\<not> is_alive (the_tee ErrTee ?ro_c)"
      by (elim exE conjE)
    from join_inv[OF clk i1, of ErrTee] have same: "out_tee ?ro_c = out_tee ?ro_b"
      by (elim exE conjE) simp
    have err_c: "\<not> is_alive (err_tee ?ro_c)" using c(4) by (simp add: the_tee_def)
    have oc': "chunks_left (out_tee ?ro_c) = []" using ob same by simp
    have ec': "chunks_left (err_tee ?ro_c) = []" by (rule done_no_chunks_err[OF c(1) err_c])
    have w: "wait clk sched ?ro1 = Some (None, ?ro_c)"
      using o(3) out_b Some err_c by (simp add: wait_def Let_def)
    have "interleave [] [] (chunks_left (err_tee ?ro_b)) = ord_c"
      using c(3) unfolding ob oc' ec' interleave_err_only by simp
    with e1 have e: "interleave sched (chunks out) ?errs = (ord_a @ ord_b) @ ord_c" by simp
    have i: "index_file ?ro_c = index_records clk 0 (line_tags ((ord_a @ ord_b) @ ord_c))"
      using c(1) by (simp add: capture_inv_def line_tags_append)
    have f: "output_file ?ro_c = concat (map snd ((ord_a @ ord_b) @ ord_c))"
      using f1 c(2) by simp
    show ?thesis
      apply (rule exI[of _ ?ro_c])
      unfolding e
      using w f i apply simp
      done
  qed
qed

text \<open>
  C3. Let the clock readings fit 64 bits and let each pipe of the process be closed in
  the end and deliver output that ends with a line feed. Then, however the two reader
  threads interleave (\<open>sched\<close>), \<^verbatim>\<open>wait\<close> returns, and with \<open>ord\<close> the order in which
  the chunks of the two streams were taken, each tagged with its stream:
  the log file holds the chunks in this order, and \<open>ord\<close> is a merge of the chunks of
  the standard output (tag 0) and of the standard error (tag 1);
  the index file holds exactly nine bytes per line feed of the chunks;
  read back nine bytes at a time, the \<open>i\<close>-th record holds the \<open>i\<close>-th reading of the
  clock in its first eight bytes, most significant byte first, and in its ninth byte
  the tag of the chunk that holds the \<open>i\<close>-th line feed of the log file, which is the
  stream that produced this line;
  the number of records is the number of line feeds of both streams, and the records
  with tag 0 and 1 are as many as the line feeds of the standard output and of the
  standard error.
\<close>

theorem index_records_match_lines:
  assumes clk: "\<forall>n. clk n < 2 ^ 64"
    and out: "stdout p = Some out" "lf_terminated out"
    and err: "case stderr p of None \<Rightarrow> True | Some err \<Rightarrow> lf_terminated err"
  shows "let ord = interleave sched (chunks out)
                     (case stderr p of None \<Rightarrow> [] | Some err \<Rightarrow> chunks err);
             tys = line_tags ord
     in \<exists>ro'.
      wait clk sched (snd (open_output sys_out sys_err p (new_run_output q cb))) = Some (None, ro')
      \<and> output_file ro' = concat (map snd ord)
      \<and> map snd (filter (\<lambda>e. fst e = 0) ord) = chunks out
      \<and> map snd (filter (\<lambda>e. fst e = 1) ord)
          = (case stderr p of None \<Rightarrow> [] | Some err \<Rightarrow> chunks err)
      \<and> index_file ro' = index_records clk 0 tys
      \<and> length (index_file ro') = 9 * length tys
      \<and> decode_index (index_file ro') = zip (map clk [0..<length tys]) tys
      \<and> length tys = count_lf (concat (chunks out))
          + (case stderr p of None \<Rightarrow> 0 | Some err \<Rightarrow> count_lf (concat (chunks err)))
      \<and> count_list tys 0 = count_lf (concat (chunks out))
      \<and> count_list tys 1
          = (case stderr p of None \<Rightarrow> 0 | Some err \<Rightarrow> count_lf (concat (chunks err)))"
proof -
  define errs where "errs = (case stderr p of None \<Rightarrow> [] | Some err \<Rightarrow> chunks err)"
  define ord where "ord = interleave sched (chunks out) errs"
  define tys where "tys = line_tags ord"
  from captured_exact[OF clk out err, of sched sys_out sys_err q cb] obtain ro' where
    w: "wait clk sched (snd (open_output sys_out sys_err p (new_run_output q cb)))
          = Some (None, ro')"
    and f: "output_file ro' = concat (map snd ord)"
    and i: "index_file ro' = index_records clk 0 tys"
    unfolding tys_def ord_def errs_def by (elim exE conjE)
  have small: "\<forall>ty\<in>set tys. ty < 256"
    unfolding tys_def ord_def by (rule interleave_line_tags_small)
  have fo: "map snd (filter (\<lambda>e. fst e = 0) ord) = chunks out"
    unfolding ord_def by (rule interleave_out)
  have fe: "map snd (filter (\<lambda>e. fst e = 1) ord) = errs"
    unfolding ord_def by (rule interleave_err)
  have c0: "count_list tys 0 = count_lf (concat (chunks out))"
    unfolding tys_def line_tags_count fo by (rule refl)
  have c1: "count_list tys 1 = count_lf (concat errs)"
    unfolding tys_def line_tags_count fe by (rule refl)
  have "fst ` set ord \<subseteq> {0, 1}" unfolding ord_def by (rule interleave_tags)
  from line_tags_length[OF this]
  have len: "length tys = count_lf (concat (chunks out)) + count_lf (concat errs)"
    unfolding tys_def[symmetric] c0 c1 .
  have ce: "count_lf (concat errs)
      = (case stderr p of None \<Rightarrow> 0 | Some err \<Rightarrow> count_lf (concat (chunks err)))"
    unfolding errs_def by (cases "stderr p") (simp_all add: count_lf_Nil)
  have d: "decode_index (index_file ro') = zip (map clk [0..<length tys]) tys"
    unfolding i using decode_index_records[OF clk small, of 0] by simp
  have l: "length (index_file ro') = 9 * length tys"
    unfolding i by (rule length_index_records)
  have "\<exists>ro'.
      wait clk sched (snd (open_output sys_out sys_err p (new_run_output q cb))) = Some (None, ro')
      \<and> output_file ro' = concat (map snd ord)
      \<and> map snd (filter (\<lambda>e. fst e = 0) ord) = chunks out
      \<and> map snd (filter (\<lambda>e. fst e = 1) ord) = errs
      \<and> index_file ro' = index_records clk 0 tys
      \<and> length (index_file ro') = 9 * length tys
      \<and> decode_index (index_file ro') = zip (map clk [0..<length tys]) tys
      \<and> length tys = count_lf (concat (chunks out)) + count_lf (concat errs)
      \<and> count_list tys 0 = count_lf (concat (chunks out))
      \<and> count_list tys 1 = count_lf (concat errs)"
    using w f fo fe i l d len c0 c1 by (intro exI[of _ ro'] conjI)
  then show ?thesis
    unfolding ce unfolding Let_def tys_def ord_def errs_def .
qed

text \<open>
  An instance: \<^verbatim>\<open>world\<close> on the standard error is read before \<^verbatim>\<open>hello\<close> on the
  standard output, so the first record has tag 1 and the second has tag 0.
\<close>

theorem index_records_match_lines_witness:
  "(\<forall>n. (\<lambda>n. 1000 + n mod 2) n < (2::nat) ^ 64)
   \<and> lf_terminated \<lparr>chunks = [[104, 101, 108, 108, 111, 10]], closes = True\<rparr>
   \<and> (\<exists>ro'.
      wait (\<lambda>n. 1000 + n mod 2) [ErrTee]
        (snd (open_output True True
          \<lparr>stdout = Some \<lparr>chunks = [[104, 101, 108, 108, 111, 10]], closes = True\<rparr>,
           stderr = Some \<lparr>chunks = [[119, 111, 114, 108, 100, 10]], closes = True\<rparr>\<rparr>
          (new_run_output False None))) = Some (None, ro')
      \<and> output_file ro' = [119, 111, 114, 108, 100, 10, 104, 101, 108, 108, 111, 10]
      \<and> length (index_file ro') = 18
      \<and> decode_index (index_file ro') = [(1000, 1), (1001, 0)])"
proof -
  have c: "\<forall>n. (\<lambda>n. 1000 + n mod 2) n < (2::nat) ^ 64"
  proof
    fix n :: nat
    have "n mod 2 < 2" by simp
    then show "(\<lambda>n. 1000 + n mod 2) n < (2::nat) ^ 64" by simp
  qed
  have a: "lf_terminated \<lparr>chunks = [[104, 101, 108, 108, 111, 10]], closes = True\<rparr>"
    by (simp add: lf_terminated_def)
  have b: "lf_terminated \<lparr>chunks = [[119, 111, 114, 108, 100, 10]], closes = True\<rparr>"
    by (simp add: lf_terminated_def)
  have u: "[0..<Suc (Suc 0)] = [0, Suc 0]" by (simp add: upt_conv_Cons)
  show ?thesis
    using c a
      index_records_match_lines[of "\<lambda>n. 1000 + n mod 2"
        "\<lparr>stdout = Some \<lparr>chunks = [[104, 101, 108, 108, 111, 10]], closes = True\<rparr>,
           stderr = Some \<lparr>chunks = [[119, 111, 114, 108, 100, 10]], closes = True\<rparr>\<rparr>"
        "\<lparr>chunks = [[104, 101, 108, 108, 111, 10]], closes = True\<rparr>"
        "[ErrTee]" True True False None, OF c _ a]
      b
    apply (simp add: count_lf_def line_tags_def Let_def u)
    apply (elim exE conjE)
    apply (rule exI)
    apply (intro conjI; assumption)
    done
qed

text \<open>
  The scenario of the specification: \<^verbatim>\<open>hello\<close> on the standard output and
  \<^verbatim>\<open>world\<close> on the standard error, which is read first.
\<close>

lemma scenario_c:
  "map_option (\<lambda>(e, ro). (e, output_file ro, index_file ro))
     (wait (\<lambda>n. 1000 + n) [ErrTee]
       (snd (open_output True True
          \<lparr>stdout = Some \<lparr>chunks = [[104, 101, 108, 108, 111, 10]], closes = True\<rparr>,
           stderr = Some \<lparr>chunks = [[119, 111, 114, 108, 100, 10]], closes = True\<rparr>\<rparr>
          (new_run_output False None))))
   = Some (None, [119, 111, 114, 108, 100, 10, 104, 101, 108, 108, 111, 10],
           [0, 0, 0, 0, 0, 0, 3, 232, 1, 0, 0, 0, 0, 0, 0, 3, 233, 0])"
  by (simp add: open_output_def new_run_output_def assert_closed_def start_tee_def
      wait_def assert_open_def join_def steps_left_def thread_step_def tee_iteration_def
      tee_eof_def output_eol_def struct_pack_QB_def is_alive_def index_entry_def Let_def)

subsection \<open>Choices\<close>

lemma check_flag_type_not_choice:
  "check_flag_type E val flag \<noteq> Some (InvalidFlagChoice v n)"
  by (auto simp: check_flag_type_def split: sum.splits bool.splits)

lemma check_flag_range_not_choice:
  "check_flag_range E val flag \<noteq> Some (InvalidFlagChoice v n)"
  by (auto simp: check_flag_range_def split: sum.splits bool.splits)

lemma falsy_passes_check_flag_val:
  "\<not> py_truthy val \<Longrightarrow> check_flag_val' E val flag \<noteq> Some (InvalidFlagChoice v n)"
  using check_flag_type_not_choice[of E val flag v n]
    check_flag_range_not_choice[of E val flag v n]
  by (auto simp: check_flag_val'_def check_flag_choice_def split: option.splits)

text \<open>
  C10. A value that is false (\<^verbatim>\<open>None\<close>, \<^verbatim>\<open>False\<close>, \<^verbatim>\<open>0\<close>, \<^verbatim>\<open>0.0\<close>, the empty
  string) passes the choice check, whatever the choices are, and \<^verbatim>\<open>_check_flag_val_\<close>
  does not raise \<open>InvalidFlagChoice\<close> for it. For a flag with choices that does not
  allow other values, \<open>InvalidFlagChoice\<close> is raised exactly for the values that are
  true and match neither the value nor the alias of a choice.
\<close>

theorem falsy_value_passes_choice_check:
  "(\<not> py_truthy val \<longrightarrow>
      check_flag_choice val flag = None
      \<and> (\<forall>v n. check_flag_val' E val flag \<noteq> Some (InvalidFlagChoice v n)))
   \<and> \<not> py_truthy PNone \<and> \<not> py_truthy (PBool False) \<and> \<not> py_truthy (PInt 0)
   \<and> \<not> py_truthy (PFloat (Fin 0)) \<and> \<not> py_truthy (PStr [])
   \<and> (choices flag \<noteq> [] \<and> \<not> allow_other flag \<longrightarrow>
      (check_flag_choice val flag = Some (InvalidFlagChoice val (name flag)))
        = (py_truthy val \<and> \<not> list_ex (choice_matches val) (choices flag)))
   \<and> (check_flag_choice val flag = None
        \<or> check_flag_choice val flag = Some (InvalidFlagChoice val (name flag)))"
  using falsy_passes_check_flag_val[of val E flag]
  by (simp add: check_flag_choice_def)

theorem falsy_value_passes_choice_check_witness:
  "check_flag_choice (PInt 0)
     ((typed_flag ''optimizer'' None)
        \<lparr>choices := [\<lparr>choice_value = PStr ''adam'', choice_alias = PNone, flags = []\<rparr>]\<rparr>)
     = None
   \<and> check_flag_choice (PStr [])
     ((typed_flag ''optimizer'' None)
        \<lparr>choices := [\<lparr>choice_value = PStr ''adam'', choice_alias = PNone, flags = []\<rparr>]\<rparr>)
     = None
   \<and> check_flag_choice (PStr ''sgd'')
     ((typed_flag ''optimizer'' None)
        \<lparr>choices := [\<lparr>choice_value = PStr ''adam'', choice_alias = PNone, flags = []\<rparr>]\<rparr>)
     = Some (InvalidFlagChoice (PStr ''sgd'') ''optimizer'')"
  using falsy_value_passes_choice_check
      [of "PInt 0"
          "(typed_flag ''optimizer'' None)
             \<lparr>choices := [\<lparr>choice_value = PStr ''adam'', choice_alias = PNone, flags = []\<rparr>]\<rparr>"
          plain_ext]
    falsy_value_passes_choice_check
      [of "PStr []"
          "(typed_flag ''optimizer'' None)
             \<lparr>choices := [\<lparr>choice_value = PStr ''adam'', choice_alias = PNone, flags = []\<rparr>]\<rparr>"
          plain_ext]
    falsy_value_passes_choice_check
      [of "PStr ''sgd''"
          "(typed_flag ''optimizer'' None)
             \<lparr>choices := [\<lparr>choice_value = PStr ''adam'', choice_alias = PNone, flags = []\<rparr>]\<rparr>"
          plain_ext]
  by (simp add: typed_flag_def choice_matches_def)

subsection \<open>Coercion to numbers\<close>

text \<open>
  C6, as the code has it. For the type \<^verbatim>\<open>int\<close> every float is rejected with a
  \<^verbatim>\<open>ValueError\<close>, with or without a fractional part, and an int is returned as it is;
  the resolver reports the rejection as \<open>InvalidFlagValue\<close>. For the type
  \<^verbatim>\<open>number\<close> an int or a float is returned as it is.
\<close>

theorem int_rejects_every_float:
  "(type' fd = Some ''int'' \<longrightarrow>
      coerce_typed_flag_value E (PFloat f) fd
        = Inl (ValueError (''invalid value for type '' @ quoted ''int''))
      \<and> coerce_typed_flag_value E (PInt i) fd = Inr (PInt i))
   \<and> (type' fd = Some ''int'' \<and> \<not> py_truthy (arg_split fd)
        \<and> \<not> is_flag_function E (PFloat f) \<longrightarrow>
      coerced_flag_value E (name fd) (PFloat f) [fd]
        = Inl (InvalidFlagValue (PFloat f) (name fd)
                 (''invalid value for type '' @ quoted ''int'')))
   \<and> (type' fd = Some ''number'' \<and> is_float_or_int val \<longrightarrow>
      coerce_typed_flag_value E val fd = Inr val)"
  by (simp add: coerce_typed_flag_value_def coerced_flag_value_def flagdef_lookup_def)

theorem int_rejects_every_float_witness:
  "coerce_typed_flag_value plain_ext (PFloat (Fin (5 / 2))) (typed_flag ''epochs'' (Some ''int''))
     = Inl (ValueError (''invalid value for type '' @ quoted ''int''))
   \<and> coerce_typed_flag_value plain_ext (PInt 3) (typed_flag ''epochs'' (Some ''int''))
     = Inr (PInt 3)
   \<and> coerced_flag_value plain_ext ''epochs'' (PFloat (Fin (5 / 2)))
       [typed_flag ''epochs'' (Some ''int'')]
     = Inl (InvalidFlagValue (PFloat (Fin (5 / 2))) ''epochs''
              (''invalid value for type '' @ quoted ''int''))
   \<and> coerce_typed_flag_value plain_ext (PFloat (Fin (5 / 2)))
       (typed_flag ''rate'' (Some ''number''))
     = Inr (PFloat (Fin (5 / 2)))"
  using int_rejects_every_float
      [of "typed_flag ''epochs'' (Some ''int'')" plain_ext "Fin (5 / 2)" 3 "PInt 3"]
    int_rejects_every_float
      [of "typed_flag ''rate'' (Some ''number'')" plain_ext "Fin (5 / 2)" 3
          "PFloat (Fin (5 / 2))"]
  by (simp add: typed_flag_def plain_ext_def)

text \<open>
  The claim as stated fails: the float \<open>2.0\<close> has no fractional part, and the type
  \<^verbatim>\<open>int\<close> rejects it all the same.
\<close>

theorem int_rejects_whole_float:
  "\<not> has_fraction (Fin 2)
   \<and> coerce_typed_flag_value plain_ext (PFloat (Fin 2)) (typed_flag ''epochs'' (Some ''int''))
     = Inl (ValueError (''invalid value for type '' @ quoted ''int''))"
  by (simp add: has_fraction_def coerce_typed_flag_value_def typed_flag_def)

subsection \<open>Required flags\<close>

lemmas flag_defs = flag_vals_for_opdef_def coerced_flag_vals_def dict_of_def typed_flag_def
  dict_has_def dict_get_def dict_get_none_def dict_pop_def coerced_flag_value_def flagdef_lookup_def
  check_flag_vals_def check_flag_val'_def check_flag_choice_def check_flag_type_def
  check_flag_range_def check_required_flags_def missing_flags_def flag_missing_def
  choice_matches_def alias_or_value_def plain_ext_def model_flag_def data_flag_def Let_def


lemma normalize_not_missing:
  "normalize_flag_aliases fds vals force = Inl e \<Longrightarrow> \<not> is_missing_error e"
  by (induction fds vals force rule: normalize_flag_aliases.induct)
     (auto split: if_splits option.splits)

lemma coerced_flag_value_not_missing:
  "coerced_flag_value E n val fds = Inl e \<Longrightarrow> \<not> is_missing_error e"
  by (auto simp: coerced_flag_value_def split: option.splits sum.splits exn.splits)

lemma apply_coerce_not_missing:
  "apply_coerce_flag_vals E fds force vals = Inl e \<Longrightarrow> \<not> is_missing_error e"
proof (induction vals arbitrary: e)
  case Nil
  then show ?case by simp
next
  case (Cons a vals)
  obtain n v where a: "a = (n, v)" by (cases a)
  show ?case
  proof (cases "coerced_flag_value E n v fds")
    case (Inl x)
    from coerced_flag_value_not_missing[OF Inl] Cons show ?thesis
      unfolding a by (cases x) (auto simp: Inl split: if_splits sum.splits)
  next
    case (Inr x)
    with Cons show ?thesis unfolding a by (auto split: sum.splits)
  qed
qed

lemma coerced_flag_vals_not_missing:
  "coerced_flag_vals E fds uv force = Inl e \<Longrightarrow> \<not> is_missing_error e"
  by (auto simp: coerced_flag_vals_def split: sum.splits
      dest: normalize_not_missing apply_coerce_not_missing)

lemma check_no_such_not_missing:
  "check_no_such_flags vals fds = Some e \<Longrightarrow> \<not> is_missing_error e"
  by (induction vals fds rule: check_no_such_flags.induct) (auto split: if_splits)

lemma check_flag_val'_not_missing:
  "check_flag_val' E v fd = Some e \<Longrightarrow> \<not> is_missing_error e"
  by (auto simp: check_flag_val'_def check_flag_choice_def check_flag_type_def
      check_flag_range_def split: if_splits option.splits sum.splits bool.splits)

lemma first_error_not_missing:
  "first_error xs = Some e \<Longrightarrow> (\<And>x e'. x \<in> set xs \<Longrightarrow> x = Some e' \<Longrightarrow> \<not> is_missing_error e')
     \<Longrightarrow> \<not> is_missing_error e"
  by (induction xs) (auto split: option.splits)

lemma check_splittable_not_missing:
  "check_splittable_flag_val E v fd = Some e \<Longrightarrow> \<not> is_missing_error e"
  unfolding check_splittable_flag_val_def Let_def
  by (erule first_error_not_missing) (auto dest: check_flag_val'_not_missing[OF sym])

lemma check_flag_val_not_missing:
  "(check_flag_val E v fd = Some e \<longrightarrow> \<not> is_missing_error e)"
  "(check_flag_val_list E vs fd = Some e \<longrightarrow> \<not> is_missing_error e)"
  by (induction E v fd and E vs fd rule: check_flag_val_check_flag_val_list.induct)
     (auto split: pyval.splits if_splits option.splits
        dest: check_flag_val'_not_missing check_splittable_not_missing)

lemma check_flag_vals_not_missing:
  "check_flag_vals E vals fds = Some e \<Longrightarrow> \<not> is_missing_error e"
  unfolding check_flag_vals_def
  by (erule first_error_not_missing)
     (auto simp del: check_flag_val.simps dest: check_flag_val_not_missing(1)[rule_format, OF sym])

lemma py_eq_str: "py_eq v (PStr s) = (v = PStr s)"
  by (cases v) auto

lemma flag_missing_iff: "flag_missing v = (v = PNone \<or> v = PStr [])"
  by (simp add: flag_missing_def py_eq_str)

lemma missing_flags_empty:
  "missing_flags vals fds = [] \<Longrightarrow> fd \<in> set fds \<Longrightarrow> required fd \<Longrightarrow>
     dict_get_none vals (name fd) \<noteq> PNone \<and> dict_get_none vals (name fd) \<noteq> PStr []"
  by (auto simp: missing_flags_def flag_missing_iff filter_empty_conv)

lemma missing_flags_all:
  "set (missing_flags vals fds)
     = {fd \<in> set fds. required fd
          \<and> (dict_get_none vals (name fd) = PNone \<or> dict_get_none vals (name fd) = PStr [])}"
  by (auto simp: missing_flags_def flag_missing_iff)

text \<open>
  C2, as the code has it. Without force the required check is made on the values after
  alias normalization, defaults and coercion, and before the values implied by choices
  are applied. If the resolution returns, no required flag was \<^verbatim>\<open>None\<close> or the empty
  string at that point, and what is returned are those values with the choice values
  applied. If it raises \<open>MissingRequiredFlags\<close>, the exception lists all the required
  flags that were missing at that point, not only the first; and it is raised whenever
  the earlier checks pass and a required flag is missing.
\<close>

theorem required_checked_before_choices:
  "(case flag_vals_for_opdef E flagdefs uv False of
      Inr res \<Rightarrow>
        (\<exists>vals. coerced_flag_vals E flagdefs uv False = Inr vals
           \<and> missing_flags vals flagdefs = []
           \<and> res = apply_choice_vals flagdefs (dict_of uv) vals)
    | Inl (MissingRequiredFlags m) \<Rightarrow>
        (\<exists>vals. coerced_flag_vals E flagdefs uv False = Inr vals
           \<and> m = missing_flags vals flagdefs \<and> m \<noteq> [])
    | Inl e \<Rightarrow> True)
   \<and> (\<forall>vals. coerced_flag_vals E flagdefs uv False = Inr vals
         \<and> check_no_such_flags vals flagdefs = None
         \<and> check_flag_vals E vals flagdefs = None
         \<and> missing_flags vals flagdefs \<noteq> [] \<longrightarrow>
       flag_vals_for_opdef E flagdefs uv False
         = Inl (MissingRequiredFlags (missing_flags vals flagdefs)))
   \<and> (\<forall>vals. set (missing_flags vals flagdefs)
         = {fd \<in> set flagdefs. required fd
             \<and> (dict_get_none vals (name fd) = PNone
                 \<or> dict_get_none vals (name fd) = PStr [])})"
proof (intro conjI allI impI)
  show "case flag_vals_for_opdef E flagdefs uv False of
      Inr res \<Rightarrow>
        (\<exists>vals. coerced_flag_vals E flagdefs uv False = Inr vals
           \<and> missing_flags vals flagdefs = []
           \<and> res = apply_choice_vals flagdefs (dict_of uv) vals)
    | Inl (MissingRequiredFlags m) \<Rightarrow>
        (\<exists>vals. coerced_flag_vals E flagdefs uv False = Inr vals
           \<and> m = missing_flags vals flagdefs \<and> m \<noteq> [])
    | Inl e \<Rightarrow> True"
  proof (cases "coerced_flag_vals E flagdefs uv False")
    case (Inl e)
    from coerced_flag_vals_not_missing[OF Inl] show ?thesis
      by (cases e) (simp_all add: flag_vals_for_opdef_def Inl)
  next
    case (Inr vals)
    show ?thesis
    proof (cases "check_no_such_flags vals flagdefs")
      case (Some e)
      from check_no_such_not_missing[OF Some] show ?thesis
        by (cases e) (simp_all add: flag_vals_for_opdef_def Inr Some)
    next
      case None
      note n1 = None
      show ?thesis
      proof (cases "check_flag_vals E vals flagdefs")
        case (Some e)
        from check_flag_vals_not_missing[OF Some] show ?thesis
          by (cases e) (simp_all add: flag_vals_for_opdef_def Inr n1 Some)
      next
        case None
        show ?thesis
          by (simp add: flag_vals_for_opdef_def Inr n1 None check_required_flags_def Let_def)
      qed
    qed
  qed
next
  fix vals
  assume "coerced_flag_vals E flagdefs uv False = Inr vals
         \<and> check_no_such_flags vals flagdefs = None
         \<and> check_flag_vals E vals flagdefs = None
         \<and> missing_flags vals flagdefs \<noteq> []"
  then show "flag_vals_for_opdef E flagdefs uv False
         = Inl (MissingRequiredFlags (missing_flags vals flagdefs))"
    by (simp add: flag_vals_for_opdef_def check_required_flags_def Let_def)
next
  fix vals
  show "set (missing_flags vals flagdefs)
         = {fd \<in> set flagdefs. required fd
             \<and> (dict_get_none vals (name fd) = PNone
                 \<or> dict_get_none vals (name fd) = PStr [])}"
    by (rule missing_flags_all)
qed

theorem required_checked_before_choices_witness:
  "flag_vals_for_opdef plain_ext
     [(data_flag None)\<lparr>default' := PNone\<rparr>,
      (model_flag PNone (PStr []))\<lparr>default' := PStr [], required := True\<rparr>,
      (typed_flag ''epochs'' None)\<lparr>default' := PInt 3, required := True\<rparr>] [] False
   = Inl (MissingRequiredFlags
            [(data_flag None)\<lparr>default' := PNone\<rparr>,
             (model_flag PNone (PStr []))\<lparr>default' := PStr [], required := True\<rparr>])"
  using required_checked_before_choices
    [of plain_ext
        "[(data_flag None)\<lparr>default' := PNone\<rparr>,
          (model_flag PNone (PStr []))\<lparr>default' := PStr [], required := True\<rparr>,
          (typed_flag ''epochs'' None)\<lparr>default' := PInt 3, required := True\<rparr>]"
        "[]"]
  by (simp add: flag_defs)

text \<open>
  The claim as stated fails: \<^verbatim>\<open>data\<close> is required and has the default \<^verbatim>\<open>mnist\<close>, so
  the required check passes; the choice \<^verbatim>\<open>cnn\<close> of \<^verbatim>\<open>model\<close> implies the empty string
  for \<^verbatim>\<open>data\<close>, and the map that is returned has the empty string for the required
  flag.
\<close>

theorem required_flag_emptied_by_choice:
  "flag_vals_for_opdef plain_ext [model_flag PNone (PStr []), data_flag None] [] False
     = Inr [(''model'', PStr ''cnn''), (''data'', PStr [])]
   \<and> required (data_flag None) \<and> name (data_flag None) = ''data''"
  by (simp add: flag_defs)

subsection \<open>Values implied by choices\<close>

lemma dict_get_set: "dict_get (dict_set d k v) k' = (if k' = k then Some v else dict_get d k')"
  by (induction d) (auto simp: dict_get_def)

lemma apply_choice_flags_get:
  "dict_get (apply_choice_flags cf user target) k =
     (if dict_get_none user k = PNone
      then (case map_of (rev cf) k of None \<Rightarrow> dict_get target k | Some v \<Rightarrow> Some v)
      else dict_get target k)"
proof (induction cf arbitrary: target)
  case Nil
  then show ?case by simp
next
  case (Cons a cf)
  obtain n v where a: "a = (n, v)" by (cases a)
  show ?case
    unfolding a
    by (auto simp: Cons.IH dict_get_set split: option.splits)
qed

lemma apply_choices_keeps:
  assumes "dict_get_none user k \<noteq> PNone"
  shows "dict_get (apply_choices cs n fv user target) k = dict_get target k
     \<or> (n = k \<and> (\<exists>c \<in> set cs. py_truthy (choice_alias c)
            \<and> dict_get (apply_choices cs n fv user target) k = Some (choice_value c)))"
proof (induction cs arbitrary: target)
  case Nil
  then show ?case by simp
next
  case (Cons c cs)
  show ?case
  proof (cases "py_eq (alias_or_value c) fv")
    case False
    with Cons.IH[of target] show ?thesis by auto
  next
    case True
    let ?t1 = "if py_truthy (choice_alias c) then dict_set target n (choice_value c) else target"
    let ?t2 = "if flags c \<noteq> [] then apply_choice_flags (flags c) user ?t1 else ?t1"
    have r: "apply_choices (c # cs) n fv user target = apply_choices cs n fv user ?t2"
      using True by (simp add: Let_def)
    have t2: "dict_get ?t2 k = dict_get ?t1 k"
      using assms by (simp add: apply_choice_flags_get)
    have t1: "dict_get ?t1 k = dict_get target k
        \<or> (n = k \<and> py_truthy (choice_alias c) \<and> dict_get ?t1 k = Some (choice_value c))"
      by (simp add: dict_get_set)
    from Cons.IH[of ?t2] t1 t2 show ?thesis
      unfolding r by auto
  qed
qed

lemma apply_choice_vals_keeps:
  assumes "dict_get_none user k \<noteq> PNone"
  shows "dict_get (apply_choice_vals fds user target) k = dict_get target k
     \<or> (\<exists>fd \<in> set fds. \<exists>c \<in> set (choices fd). name fd = k \<and> py_truthy (choice_alias c)
            \<and> dict_get (apply_choice_vals fds user target) k = Some (choice_value c))"
proof (induction fds arbitrary: target)
  case Nil
  then show ?case by simp
next
  case (Cons fd fds)
  define t where "t = (if choices fd = [] then target
        else if dict_get_none target (name fd) = PNone then target
        else apply_choices (choices fd) (name fd) (dict_get_none target (name fd)) user target)"
  define R where "R = apply_choice_vals fds user t"
  have r: "apply_choice_vals (fd # fds) user target = R" by (simp add: R_def t_def)
  have t: "dict_get t k = dict_get target k
     \<or> (name fd = k \<and> (\<exists>c \<in> set (choices fd). py_truthy (choice_alias c)
            \<and> dict_get t k = Some (choice_value c)))"
    using apply_choices_keeps[OF assms, of "choices fd" "name fd" "dict_get_none target (name fd)" target]
    unfolding t_def by auto
  have ih: "dict_get R k = dict_get t k
     \<or> (\<exists>fd \<in> set fds. \<exists>c \<in> set (choices fd). name fd = k \<and> py_truthy (choice_alias c)
            \<and> dict_get R k = Some (choice_value c))"
    unfolding R_def by (rule Cons.IH)
  show ?case
    unfolding r using ih t by (simp only: set_simps bex_simps) metis
qed

lemma apply_choice_vals_append:
  "apply_choice_vals (a @ b) user target = apply_choice_vals b user (apply_choice_vals a user target)"
  by (induction a arbitrary: target) simp_all

lemma apply_choices_append:
  "apply_choices (a @ b) n v user target = apply_choices b n v user (apply_choices a n v user target)"
  by (induction a arbitrary: target) (simp_all add: Let_def)

lemma apply_choice_flags_Nil: "apply_choice_flags [] user target = target"
  by simp

lemma apply_choices_Cons:
  "apply_choices (c # cs) n v user t =
     apply_choices cs n v user
       (if py_eq (if py_truthy (choice_alias c) then choice_alias c else choice_value c) v
        then apply_choice_flags (flags c) user
               (if py_truthy (choice_alias c) then dict_set t n (choice_value c) else t)
        else t)"
  by (cases "flags c = []") (simp_all add: alias_or_value_def Let_def)

lemma choice_reached:
  assumes "choices fd = cs1 @ c # cs2"
    and "dict_get_none (apply_choice_vals fds1 user target) (name fd) \<noteq> PNone"
  shows "apply_choice_vals (fds1 @ fd # fds2) user target =
     apply_choice_vals fds2 user
       (apply_choices (c # cs2) (name fd)
          (dict_get_none (apply_choice_vals fds1 user target) (name fd)) user
          (apply_choices cs1 (name fd)
             (dict_get_none (apply_choice_vals fds1 user target) (name fd)) user
             (apply_choice_vals fds1 user target)))"
proof -
  have ne: "choices fd \<noteq> []" using assms(1) by simp
  have "apply_choice_vals (fds1 @ fd # fds2) user target
      = apply_choice_vals (fd # fds2) user (apply_choice_vals fds1 user target)"
    by (rule apply_choice_vals_append)
  also have "\<dots> = apply_choice_vals fds2 user
       (apply_choices (choices fd) (name fd)
          (dict_get_none (apply_choice_vals fds1 user target) (name fd)) user
          (apply_choice_vals fds1 user target))"
    using ne assms(2) by simp
  finally show ?thesis unfolding assms(1) apply_choices_append .
qed

lemma selected_choice_get:
  "dict_get (apply_choice_flags cf user (if a then dict_set t n x else t)) k =
     (if dict_get_none user k = PNone \<and> map_of (rev cf) k \<noteq> None
      then map_of (rev cf) k
      else if a \<and> k = n then Some x
      else dict_get t k)"
  by (auto simp: apply_choice_flags_get dict_get_set split: option.splits)

lemma resolution_applies_choices:
  assumes "flag_vals_for_opdef E flagdefs user_flag_vals force = Inr r"
  shows "\<exists>flag_vals. coerced_flag_vals E flagdefs user_flag_vals force = Inr flag_vals
           \<and> r = apply_choice_vals flagdefs (dict_of user_flag_vals) flag_vals"
  using assms
  by (auto simp: flag_vals_for_opdef_def split: sum.splits option.splits if_splits)

text \<open>
  C7, as the code has it. What the resolution returns is the coerced values after the
  pass of \<^verbatim>\<open>_apply_choice_vals\<close>, to which the user values are passed as the caller
  gave them. In this pass, for every flag definition \<open>fd\<close>, wherever it stands among the
  flag definitions, whose value \<open>v\<close> is not \<^verbatim>\<open>None\<close> when the loop reaches it, and for
  every choice \<open>c\<close> of \<open>fd\<close>, wherever it stands among the choices: \<open>c\<close> is selected when
  \<open>v\<close> equals the alias of \<open>c\<close> if \<open>c\<close> has one, and else when \<open>v\<close> equals the value of
  \<open>c\<close>. A choice that is not selected changes nothing. When the loop has dealt with a
  selected choice, every name that the choice implies a value for, and under which the
  user values hold nothing or \<^verbatim>\<open>None\<close>, has the implied value; the flag itself has the
  value of the choice in place of the alias; every other entry is as before. The loop
  then goes on with the choices and the flag definitions that follow. Over the whole
  pass an entry for which the user values hold a value under the same name is changed
  by no implied value: it keeps its value, or it is the value of a choice of its own
  flag, put in place of the alias.
\<close>

theorem choice_values_applied:
  "(flag_vals_for_opdef E flagdefs user_flag_vals force = Inr r \<longrightarrow>
      (\<exists>flag_vals. coerced_flag_vals E flagdefs user_flag_vals force = Inr flag_vals
           \<and> r = apply_choice_vals flagdefs (dict_of user_flag_vals) flag_vals))
   \<and> (let t1 = apply_choice_vals fds1 user target;
           v = dict_get_none t1 (name fd);
           t2 = apply_choices cs1 (name fd) v user t1;
           selected = py_eq (if py_truthy (choice_alias c) then choice_alias c
                             else choice_value c) v;
           t3 = (if selected
                 then apply_choice_flags (flags c) user
                        (if py_truthy (choice_alias c)
                         then dict_set t2 (name fd) (choice_value c) else t2)
                 else t2)
       in choices fd = cs1 @ c # cs2 \<and> v \<noteq> PNone \<longrightarrow>
            apply_choice_vals (fds1 @ fd # fds2) user target
              = apply_choice_vals fds2 user (apply_choices cs2 (name fd) v user t3)
            \<and> (\<forall>k. dict_get t3 k =
                  (if selected \<and> dict_get_none user k = PNone
                        \<and> map_of (rev (flags c)) k \<noteq> None
                   then map_of (rev (flags c)) k
                   else if selected \<and> py_truthy (choice_alias c) \<and> k = name fd
                   then Some (choice_value c)
                   else dict_get t2 k)))
   \<and> dict_get (apply_choice_flags cf user target) k =
       (if dict_get_none user k = PNone
        then (case map_of (rev cf) k of None \<Rightarrow> dict_get target k | Some v \<Rightarrow> Some v)
        else dict_get target k)
   \<and> (dict_get_none user k \<noteq> PNone \<longrightarrow>
        dict_get (apply_choice_vals fds user target) k = dict_get target k
        \<or> (\<exists>fd \<in> set fds. \<exists>c \<in> set (choices fd). name fd = k \<and> py_truthy (choice_alias c)
              \<and> dict_get (apply_choice_vals fds user target) k = Some (choice_value c)))"
proof (intro conjI)
  show "flag_vals_for_opdef E flagdefs user_flag_vals force = Inr r \<longrightarrow>
      (\<exists>flag_vals. coerced_flag_vals E flagdefs user_flag_vals force = Inr flag_vals
           \<and> r = apply_choice_vals flagdefs (dict_of user_flag_vals) flag_vals)"
    by (rule impI) (rule resolution_applies_choices)
next
  define t1 where "t1 = apply_choice_vals fds1 user target"
  define v where "v = dict_get_none t1 (name fd)"
  define t2 where "t2 = apply_choices cs1 (name fd) v user t1"
  define selected where "selected = py_eq (if py_truthy (choice_alias c) then choice_alias c
                             else choice_value c) v"
  define t3 where "t3 = (if selected
                 then apply_choice_flags (flags c) user
                        (if py_truthy (choice_alias c)
                         then dict_set t2 (name fd) (choice_value c) else t2)
                 else t2)"
  have "choices fd = cs1 @ c # cs2 \<and> v \<noteq> PNone \<longrightarrow>
            apply_choice_vals (fds1 @ fd # fds2) user target
              = apply_choice_vals fds2 user (apply_choices cs2 (name fd) v user t3)
            \<and> (\<forall>k. dict_get t3 k =
                  (if selected \<and> dict_get_none user k = PNone
                        \<and> map_of (rev (flags c)) k \<noteq> None
                   then map_of (rev (flags c)) k
                   else if selected \<and> py_truthy (choice_alias c) \<and> k = name fd
                   then Some (choice_value c)
                   else dict_get t2 k))"
  proof (intro impI conjI allI)
    assume a: "choices fd = cs1 @ c # cs2 \<and> v \<noteq> PNone"
    then have a1: "choices fd = cs1 @ c # cs2"
      and a2: "dict_get_none (apply_choice_vals fds1 user target) (name fd) \<noteq> PNone"
      by (simp_all add: v_def t1_def)
    show "apply_choice_vals (fds1 @ fd # fds2) user target
              = apply_choice_vals fds2 user (apply_choices cs2 (name fd) v user t3)"
      unfolding choice_reached[OF a1 a2] apply_choices_Cons
      unfolding t3_def selected_def t2_def v_def t1_def by (rule refl)
  next
    fix k
    show "dict_get t3 k =
                  (if selected \<and> dict_get_none user k = PNone
                        \<and> map_of (rev (flags c)) k \<noteq> None
                   then map_of (rev (flags c)) k
                   else if selected \<and> py_truthy (choice_alias c) \<and> k = name fd
                   then Some (choice_value c)
                   else dict_get t2 k)"
    proof (cases selected)
      case True
      have e: "t3 = apply_choice_flags (flags c) user
                 (if py_truthy (choice_alias c)
                  then dict_set t2 (name fd) (choice_value c) else t2)"
        using True by (simp add: t3_def)
      show ?thesis
        unfolding e selected_choice_get using True by auto
    next
      case False
      then show ?thesis by (simp add: t3_def)
    qed
  qed
  then show "let t1 = apply_choice_vals fds1 user target;
           v = dict_get_none t1 (name fd);
           t2 = apply_choices cs1 (name fd) v user t1;
           selected = py_eq (if py_truthy (choice_alias c) then choice_alias c
                             else choice_value c) v;
           t3 = (if selected
                 then apply_choice_flags (flags c) user
                        (if py_truthy (choice_alias c)
                         then dict_set t2 (name fd) (choice_value c) else t2)
                 else t2)
       in choices fd = cs1 @ c # cs2 \<and> v \<noteq> PNone \<longrightarrow>
            apply_choice_vals (fds1 @ fd # fds2) user target
              = apply_choice_vals fds2 user (apply_choices cs2 (name fd) v user t3)
            \<and> (\<forall>k. dict_get t3 k =
                  (if selected \<and> dict_get_none user k = PNone
                        \<and> map_of (rev (flags c)) k \<noteq> None
                   then map_of (rev (flags c)) k
                   else if selected \<and> py_truthy (choice_alias c) \<and> k = name fd
                   then Some (choice_value c)
                   else dict_get t2 k))"
    unfolding Let_def t3_def selected_def t2_def v_def t1_def .
next
  show "dict_get (apply_choice_flags cf user target) k =
       (if dict_get_none user k = PNone
        then (case map_of (rev cf) k of None \<Rightarrow> dict_get target k | Some v \<Rightarrow> Some v)
        else dict_get target k)"
    by (rule apply_choice_flags_get)
next
  show "dict_get_none user k \<noteq> PNone \<longrightarrow>
        dict_get (apply_choice_vals fds user target) k = dict_get target k
        \<or> (\<exists>fd \<in> set fds. \<exists>c \<in> set (choices fd). name fd = k \<and> py_truthy (choice_alias c)
              \<and> dict_get (apply_choice_vals fds user target) k = Some (choice_value c))"
    by (rule impI) (rule apply_choice_vals_keeps)
qed


text \<open>
  An instance: \<^verbatim>\<open>model\<close> stands after \<^verbatim>\<open>data\<close>, its value \<^verbatim>\<open>cnn\<close> selects the
  choice that implies \<^verbatim>\<open>imagenet\<close> for \<^verbatim>\<open>data\<close>. The implied value is set when the
  user has not set \<^verbatim>\<open>data\<close>, and the user's \<^verbatim>\<open>cifar\<close> is kept.
\<close>

theorem choice_values_applied_witness:
  "flag_vals_for_opdef plain_ext [model_flag PNone (PStr ''imagenet''), data_flag None] [] False
     = Inr [(''model'', PStr ''cnn''), (''data'', PStr ''imagenet'')]
   \<and> choices (model_flag PNone (PStr ''imagenet''))
       = [] @ \<lparr>choice_value = PStr ''cnn'', choice_alias = PNone,
               flags = [(''data'', PStr ''imagenet'')]\<rparr> # []
   \<and> dict_get_none (apply_choice_vals [data_flag None] []
         [(''model'', PStr ''cnn''), (''data'', PStr ''mnist'')]) ''model'' \<noteq> PNone
   \<and> apply_choice_vals [data_flag None, model_flag PNone (PStr ''imagenet'')]
       [] [(''model'', PStr ''cnn''), (''data'', PStr ''mnist'')]
      = [(''model'', PStr ''cnn''), (''data'', PStr ''imagenet'')]
   \<and> dict_get_none [(''data'', PStr ''cifar'')] ''data'' \<noteq> PNone
   \<and> apply_choice_vals [data_flag None, model_flag PNone (PStr ''imagenet'')]
       [(''data'', PStr ''cifar'')] [(''data'', PStr ''cifar''), (''model'', PStr ''cnn'')]
      = [(''data'', PStr ''cifar''), (''model'', PStr ''cnn'')]"
  using choice_values_applied
    [where E = plain_ext
       and flagdefs = "[model_flag PNone (PStr ''imagenet''), data_flag None]"
       and user_flag_vals = "[]" and force = False
       and r = "[(''model'', PStr ''cnn''), (''data'', PStr ''imagenet'')]"
       and ?fds1.0 = "[data_flag None]" and fd = "model_flag PNone (PStr ''imagenet'')"
       and ?fds2.0 = "[]" and ?cs1.0 = "[]" and ?cs2.0 = "[]"
       and c = "\<lparr>choice_value = PStr ''cnn'', choice_alias = PNone,
                 flags = [(''data'', PStr ''imagenet'')]\<rparr>"
       and user = "[]" and target = "[(''model'', PStr ''cnn''), (''data'', PStr ''mnist'')]"
       and cf = "[]" and k = "''data''"
       and fds = "[data_flag None, model_flag PNone (PStr ''imagenet'')]"]
    choice_values_applied
    [where E = plain_ext
       and flagdefs = "[model_flag PNone (PStr ''imagenet''), data_flag None]"
       and user_flag_vals = "[]" and force = False
       and r = "[(''model'', PStr ''cnn''), (''data'', PStr ''imagenet'')]"
       and ?fds1.0 = "[data_flag None]" and fd = "model_flag PNone (PStr ''imagenet'')"
       and ?fds2.0 = "[]" and ?cs1.0 = "[]" and ?cs2.0 = "[]"
       and c = "\<lparr>choice_value = PStr ''cnn'', choice_alias = PNone,
                 flags = [(''data'', PStr ''imagenet'')]\<rparr>"
       and user = "[(''data'', PStr ''cifar'')]"
       and target = "[(''data'', PStr ''cifar''), (''model'', PStr ''cnn'')]"
       and cf = "[]" and k = "''data''"
       and fds = "[data_flag None, model_flag PNone (PStr ''imagenet'')]"]
  by (simp add: flag_defs)

text \<open>
  The claim as stated fails. The user sets \<^verbatim>\<open>model\<close> to \<^verbatim>\<open>cnn\<close>, the value of a
  choice that also has the alias \<^verbatim>\<open>c\<close>: the value matches the choice, as the check of
  the choices has it, and the implied \<^verbatim>\<open>imagenet\<close> is not applied to \<^verbatim>\<open>data\<close>, which
  the user has not set.
\<close>

theorem choice_values_counterexample:
  "flag_vals_for_opdef plain_ext [model_flag (PStr ''c'') (PStr ''imagenet''), data_flag None]
     [(''model'', PStr ''cnn'')] False
    = Inr [(''model'', PStr ''cnn''), (''data'', PStr ''mnist'')]
   \<and> choice_matches (PStr ''cnn'')
       \<lparr>choice_value = PStr ''cnn'', choice_alias = PStr ''c'',
        flags = [(''data'', PStr ''imagenet'')]\<rparr>"
  by (simp add: flag_defs)

text \<open>
  The user values reach \<^verbatim>\<open>_apply_choice_vals\<close> before their aliases are normalized:
  a value that the user gives for \<^verbatim>\<open>data\<close> through its alias \<^verbatim>\<open>dataset\<close> is held
  under the alias there, and the implied value takes its place.
\<close>

lemma value_given_by_alias:
  "flag_vals_for_opdef plain_ext
       [model_flag PNone (PStr ''imagenet''), data_flag (Some ''dataset'')]
       [(''dataset'', PStr ''cifar'')] False
      = Inr [(''data'', PStr ''imagenet''), (''model'', PStr ''cnn'')]"
  by (simp add: flag_defs)

end
